theory Spec2Isabelle
  imports Complex_Main "HOL-Library.AList"
begin

section \<open>JavaScript strings\<close>

text \<open>
  A JavaScript string is a sequence of UTF-16 code units. The model uses \<^typ>\<open>string\<close>:
  one \<^typ>\<open>char\<close> stands for one code unit below 256, and \<open>length\<close> is the
  \<open>.length\<close> of the source. The functions of this section are the built-in string
  methods the two nodes call, with the behaviour ECMAScript gives them.
\<close>

abbreviation dquote :: char where
  "dquote \<equiv> CHR 0x22"

abbreviation newline :: char where
  "newline \<equiv> CHR 0x0A"

text \<open>The white space and line terminators that \<open>String.prototype.trim\<close> removes
  (code units below 256): TAB, LF, VT, FF, CR, SP and NBSP.\<close>

definition is_js_space :: "char \<Rightarrow> bool" where
  "is_js_space c = (of_char c \<in> {9, 10, 11, 12, 13, 32, 160 :: nat})"

definition trim :: "string \<Rightarrow> string" where
  "trim s = rev (dropWhile is_js_space (rev (dropWhile is_js_space s)))"

text \<open>\<open>s.startsWith(p)\<close>.\<close>

definition startsWith :: "string \<Rightarrow> string \<Rightarrow> bool" where
  "startsWith s p = (take (length p) s = p)"

text \<open>\<open>s.includes(p)\<close>: \<open>p\<close> occurs in \<open>s\<close> as a substring (the empty string always does).\<close>

fun js_includes :: "string \<Rightarrow> string \<Rightarrow> bool" where
  "js_includes [] p = (p = [])"
| "js_includes (c # cs) p = (startsWith (c # cs) p \<or> js_includes cs p)"

text \<open>\<open>s.split(sep)\<close> with a string separator. An empty separator splits into code
  units; otherwise the occurrences of \<open>sep\<close> are found from left to right, \<open>cur\<close> being
  the piece read since the last one.\<close>

function splitFrom :: "string \<Rightarrow> string \<Rightarrow> string \<Rightarrow> string list" where
  "splitFrom sep cur [] = [cur]"
| "splitFrom sep cur (c # cs) =
     (if sep \<noteq> [] \<and> startsWith (c # cs) sep
      then cur # splitFrom sep [] (drop (length sep) (c # cs))
      else splitFrom sep (cur @ [c]) cs)"
  by pat_completeness auto
termination
  by (relation "measure (\<lambda>(sep, cur, s). length s)") auto

definition js_split :: "string \<Rightarrow> string \<Rightarrow> string list" where
  "js_split s sep = (if sep = [] then map (\<lambda>c. [c]) s else splitFrom sep [] s)"

text \<open>\<open>s.replace(pat, '')\<close> with a string pattern: the first occurrence of \<open>pat\<close> is removed.\<close>

fun removeFirst :: "string \<Rightarrow> string \<Rightarrow> string" where
  "removeFirst pat [] = []"
| "removeFirst pat (c # cs) =
     (if startsWith (c # cs) pat then drop (length pat) (c # cs) else c # removeFirst pat cs)"

text \<open>\<open>xs.join(sep)\<close> on an array of strings.\<close>

fun join :: "string \<Rightarrow> string list \<Rightarrow> string" where
  "join sep [] = []"
| "join sep [x] = x"
| "join sep (x # y # ys) = x @ sep @ join sep (y # ys)"

text \<open>The decimal digits of a non-negative integer, as a template literal prints an
  array index.\<close>

definition digit_char :: "nat \<Rightarrow> char" where
  "digit_char n = ''0123456789'' ! n"

function show_nat :: "nat \<Rightarrow> string" where
  "show_nat n = (if n < 10 then [digit_char n] else show_nat (n div 10) @ [digit_char (n mod 10)])"
  by pat_completeness auto
termination
  by (relation "measure id") auto

section \<open>The encoder: escaping a field\<close>

text \<open>\<open>value.replace(/"/g, '""')\<close>: every quote character is doubled.\<close>

definition doubleQuotes :: "string \<Rightarrow> string" where
  "doubleQuotes s = concat (map (\<lambda>c. if c = dquote then [dquote, dquote] else [c]) s)"

definition escapeValue :: "string \<Rightarrow> string \<Rightarrow> string" where
  "escapeValue v delimiter =
     (if js_includes v delimiter \<or> js_includes v [newline]
      then [dquote] @ doubleQuotes v @ [dquote]
      else v)"

section \<open>The decoder: the delimited-line tokenizer\<close>

text \<open>
  The loop of \<open>parseDelimitedLine\<close> over the characters of the line, with its three
  variables \<open>values\<close>, \<open>current\<close> and \<open>inQuotes\<close>; the last argument is the part of the
  line from index \<open>i\<close> on. \<open>char === delimiter\<close> compares a one-character string with the
  delimiter string.
\<close>

fun tokenize :: "string \<Rightarrow> string list \<Rightarrow> string \<Rightarrow> bool \<Rightarrow> string \<Rightarrow> string list" where
  "tokenize delimiter values current inQuotes [] = values @ [current]"
| "tokenize delimiter values current inQuotes (c # rest) =
     (if c = dquote then
        (case rest of
           c' # rest' \<Rightarrow>
             if inQuotes \<and> c' = dquote
             then tokenize delimiter values (current @ [dquote]) inQuotes rest'
             else tokenize delimiter values current (\<not> inQuotes) rest
         | [] \<Rightarrow> tokenize delimiter values current (\<not> inQuotes) rest)
      else if [c] = delimiter \<and> \<not> inQuotes
      then tokenize delimiter (values @ [current]) [] inQuotes rest
      else tokenize delimiter values (current @ [c]) inQuotes rest)"

definition parseDelimitedLine :: "string \<Rightarrow> string \<Rightarrow> string list" where
  "parseDelimitedLine line delimiter = tokenize delimiter [] [] False line"

section \<open>JSON values and objects\<close>

text \<open>
  The input of the encoder is a JSON-compatible value (\<open>unknown\<close> in the source). The
  type \<open>'n\<close> is the type of JavaScript numbers: the model never computes with them, it
  only passes them through the built-ins \<open>String\<close> and \<open>Number\<close>, which every function
  below takes as the parameters \<open>numToString\<close> and \<open>toNumber\<close> (\<open>None\<close> for \<open>NaN\<close>).

  An object is the list of its own enumerable properties in the order in which
  \<open>Object.keys\<close>, \<open>Object.values\<close> and \<open>Object.entries\<close> enumerate them: array indices
  first, ascending, then the other keys in the order of their creation. The keys of an
  object are distinct. Its prototype is \<open>Object.prototype\<close>, as for every object that
  \<open>JSON.parse\<close> or the literal \<open>{}\<close> creates, and \<open>Object.prototype\<close> is as the language
  defines it when a call starts.
\<close>

datatype 'n json =
    JNull
  | JUndefined
  | JBool bool
  | JNum 'n
  | JStr string
  | JArr "'n json list"
  | JObj "(string \<times> 'n json) list"

text \<open>
  A call ends with its result, or it raises a \<open>TypeError\<close>. \<open>PrototypeWalk\<close> is not an
  exception of the program: it marks a call that steps onto \<open>Object.prototype\<close> or one
  of its members, or that replaces the prototype of a record. What such a call does to
  these shared objects is not described here, and nothing is stated about its result.
\<close>

datatype error = TypeError | PrototypeWalk

text \<open>The first error of a list of results, or all the results.\<close>

fun collect :: "(error + 'a) list \<Rightarrow> error + 'a list" where
  "collect [] = Inr []"
| "collect (r # rs) =
     (case r of
        Inl e \<Rightarrow> Inl e
      | Inr x \<Rightarrow> (case collect rs of Inl e \<Rightarrow> Inl e | Inr xs \<Rightarrow> Inr (x # xs)))"

definition is_digit :: "char \<Rightarrow> bool" where
  "is_digit c = (48 \<le> (of_char c :: nat) \<and> (of_char c :: nat) \<le> 57)"

definition digits_val :: "string \<Rightarrow> nat" where
  "digits_val s = foldl (\<lambda>n c. 10 * n + (of_char c - 48)) 0 s"

text \<open>An array index is a canonical numeric string below \<open>2^32 - 1\<close>.\<close>

definition array_index :: "string \<Rightarrow> nat option" where
  "array_index k =
     (if k \<noteq> [] \<and> list_all is_digit k \<and> (hd k \<noteq> CHR ''0'' \<or> length k = 1)
         \<and> digits_val k < 4294967295
      then Some (digits_val k) else None)"

text \<open>\<open>comes_before k k'\<close>: a new property \<open>k\<close> is enumerated before the existing
  property \<open>k'\<close>.\<close>

definition comes_before :: "string \<Rightarrow> string \<Rightarrow> bool" where
  "comes_before k k' =
     (case array_index k of
        None \<Rightarrow> False
      | Some i \<Rightarrow> (case array_index k' of None \<Rightarrow> True | Some j \<Rightarrow> i < j))"

fun insert_prop :: "string \<Rightarrow> 'a \<Rightarrow> (string \<times> 'a) list \<Rightarrow> (string \<times> 'a) list" where
  "insert_prop k v [] = [(k, v)]"
| "insert_prop k v ((k', v') # ps) =
     (if comes_before k k' then (k, v) # (k', v') # ps else (k', v') # insert_prop k v ps)"

text \<open>
  The members of \<open>Object.prototype\<close>, which every object inherits: \<open>__proto__\<close> is an
  accessor with a getter and a setter, the others are writable data properties whose
  values are built-in functions.
\<close>

definition inherited_member :: "string \<Rightarrow> bool" where
  "inherited_member k =
     (k \<in> set [''constructor'', ''__defineGetter__'', ''__defineSetter__'', ''hasOwnProperty'',
               ''__lookupGetter__'', ''__lookupSetter__'', ''isPrototypeOf'',
               ''propertyIsEnumerable'', ''toString'', ''valueOf'', ''__proto__'',
               ''toLocaleString''])"

text \<open>\<open>has_key\<close> is \<open>Object.hasOwn(obj, key)\<close>; \<open>key in obj\<close> also holds for an inherited
  member.\<close>

definition has_key :: "(string \<times> 'a) list \<Rightarrow> string \<Rightarrow> bool" where
  "has_key obj k = (k \<in> set (map fst obj))"

definition in_object :: "(string \<times> 'a) list \<Rightarrow> string \<Rightarrow> bool" where
  "in_object obj k = (has_key obj k \<or> inherited_member k)"

text \<open>
  The assignment \<open>obj[key] = value\<close> of a value that is not an object. An own property
  keeps its place and takes the value. Otherwise the key \<open>__proto__\<close> reaches the
  inherited setter, which creates no property (for \<open>null\<close> it removes the prototype of
  \<open>obj\<close>, and \<open>flattenObject\<close>, where this can happen, reads nothing through the
  prototype of its result and assigns \<open>__proto__\<close> to one result at most once); any
  other key becomes a new own property, also when it names an inherited data property.
  The same function stores an object under a key that is not \<open>__proto__\<close>.
\<close>

definition obj_set :: "(string \<times> 'a) list \<Rightarrow> string \<Rightarrow> 'a \<Rightarrow> (string \<times> 'a) list" where
  "obj_set obj k v =
     (if has_key obj k then AList.update k v obj
      else if k = ''__proto__'' then obj
      else insert_prop k v obj)"

text \<open>A well-formed object: no key twice, and the properties in enumeration order.\<close>

definition wf_object :: "(string \<times> 'a) list \<Rightarrow> bool" where
  "wf_object obj =
     (distinct (map fst obj) \<and> sorted_wrt (\<lambda>k k'. \<not> comes_before k' k) (map fst obj))"

text \<open>
  \<open>String(v)\<close>, and \<open>Array.prototype.join\<close> inside it: an array is its elements joined
  with a comma, \<open>null\<close> and \<open>undefined\<close> elements giving the empty string. An object is
  converted by its \<open>toString\<close>: the inherited one gives \<open>[object Object]\<close>; an own
  property \<open>toString\<close> holds a JSON value, which cannot be called, and as the
  \<open>valueOf\<close> that is tried next gives no primitive either, the conversion raises a
  \<open>TypeError\<close>.
\<close>

fun toStr :: "('n \<Rightarrow> string) \<Rightarrow> 'n json \<Rightarrow> error + string" where
  "toStr numToString JNull = Inr ''null''"
| "toStr numToString JUndefined = Inr ''undefined''"
| "toStr numToString (JBool b) = Inr (if b then ''true'' else ''false'')"
| "toStr numToString (JNum n) = Inr (numToString n)"
| "toStr numToString (JStr s) = Inr s"
| "toStr numToString (JArr xs) =
     (case collect (map (\<lambda>x. case x of JNull \<Rightarrow> Inr [] | JUndefined \<Rightarrow> Inr []
                                      | _ \<Rightarrow> toStr numToString x) xs) of
        Inl e \<Rightarrow> Inl e
      | Inr texts \<Rightarrow> Inr (join '','' texts))"
| "toStr numToString (JObj ps) =
     (if has_key ps ''toString'' then Inl TypeError else Inr ''[object Object]'')"

text \<open>\<open>String(v ?? '')\<close>, for a value that may be absent (\<open>None\<close> is the \<open>undefined\<close> of
  a missing property).\<close>

definition stringOrEmpty :: "('n \<Rightarrow> string) \<Rightarrow> 'n json option \<Rightarrow> error + string" where
  "stringOrEmpty numToString v =
     (case v of
        None \<Rightarrow> Inr []
      | Some JNull \<Rightarrow> Inr []
      | Some JUndefined \<Rightarrow> Inr []
      | Some x \<Rightarrow> toStr numToString x)"



section \<open>The encoder\<close>

text \<open>
  \<open>flattenObject\<close>: the loop over \<open>Object.entries(obj)\<close>, with \<open>result\<close> as the
  accumulator. \<open>Object.assign(result, sub)\<close> assigns the properties of \<open>sub\<close> to
  \<open>result\<close> in their order. \<open>value.join(',')\<close> is the conversion of the array to a
  string.
\<close>

definition assignAll :: "(string \<times> 'a) list \<Rightarrow> (string \<times> 'a) list \<Rightarrow> (string \<times> 'a) list" where
  "assignAll result src = fold (\<lambda>(k, v) r. obj_set r k v) src result"

fun flattenEntries ::
  "('n \<Rightarrow> string) \<Rightarrow> string \<Rightarrow> string \<Rightarrow> (string \<times> 'n json) list \<Rightarrow> (string \<times> 'n json) list
     \<Rightarrow> error + (string \<times> 'n json) list" where
  "flattenEntries numToString separator prefix [] result = Inr result"
| "flattenEntries numToString separator prefix ((key, v) # rest) result =
     (let newKey = (if prefix \<noteq> [] then prefix @ separator @ key else key)
      in case (case v of
                 JObj sub \<Rightarrow>
                   (case flattenEntries numToString separator newKey sub [] of
                      Inl e \<Rightarrow> Inl e
                    | Inr flat \<Rightarrow> Inr (assignAll result flat))
               | JArr xs \<Rightarrow>
                   (case toStr numToString (JArr xs) of
                      Inl e \<Rightarrow> Inl e
                    | Inr joined \<Rightarrow> Inr (obj_set result newKey (JStr joined)))
               | _ \<Rightarrow> Inr (obj_set result newKey v)) of
           Inl e \<Rightarrow> Inl e
         | Inr result' \<Rightarrow> flattenEntries numToString separator prefix rest result')"

definition flattenObject ::
  "('n \<Rightarrow> string) \<Rightarrow> (string \<times> 'n json) list \<Rightarrow> string \<Rightarrow> string
     \<Rightarrow> error + (string \<times> 'n json) list" where
  "flattenObject numToString obj prefix separator =
     flattenEntries numToString separator prefix obj []"

definition schemaHeader :: "string \<Rightarrow> string list \<Rightarrow> string" where
  "schemaHeader delimiter keys = ''@schema'' @ delimiter @ join delimiter keys @ [newline]"

definition convertObjectToToon ::
  "('n \<Rightarrow> string) \<Rightarrow> (string \<times> 'n json) list \<Rightarrow> string \<Rightarrow> string \<Rightarrow> bool
     \<Rightarrow> error + string" where
  "convertObjectToToon numToString obj delimiter nestedSeparator includeSchema =
     (case flattenObject numToString obj [] nestedSeparator of
        Inl e \<Rightarrow> Inl e
      | Inr flattenedPairs \<Rightarrow>
          (case collect (map (\<lambda>v. stringOrEmpty numToString (Some v))
                          (map snd flattenedPairs)) of
             Inl e \<Rightarrow> Inl e
           | Inr texts \<Rightarrow>
               Inr ((if includeSchema then schemaHeader delimiter (map fst flattenedPairs)
                     else []) @
                    join delimiter (map (\<lambda>t. escapeValue t delimiter) texts))))"



section \<open>The token-savings estimate\<close>

text \<open>
  \<open>estimateTokenSavings\<close> divides two numbers. The token counts are integers; their
  difference is exact. A quotient and a product of doubles are rounded: \<open>rnd\<close> is that
  rounding, a parameter of the model. Division by zero gives the special values of
  IEEE 754. \<open>toFixed(1)\<close> prints a finite value with the digit after the point that is
  nearest to it, the larger one on a tie; its branch for values of \<open>10^21\<close> and more
  cannot be reached from the lengths of two strings and is not modelled.
\<close>

datatype js_number = Finite rat | NaN | PlusInfinity | MinusInfinity

definition js_divide :: "(rat \<Rightarrow> rat) \<Rightarrow> int \<Rightarrow> int \<Rightarrow> js_number" where
  "js_divide rnd x y =
     (if y = 0 then (if x = 0 then NaN else if x < 0 then MinusInfinity else PlusInfinity)
      else Finite (rnd (of_int x / of_int y)))"

definition js_times :: "(rat \<Rightarrow> rat) \<Rightarrow> js_number \<Rightarrow> int \<Rightarrow> js_number" where
  "js_times rnd x c =
     (case x of
        Finite q \<Rightarrow> Finite (rnd (q * of_int c))
      | NaN \<Rightarrow> NaN
      | PlusInfinity \<Rightarrow> (if c = 0 then NaN else if c < 0 then MinusInfinity else PlusInfinity)
      | MinusInfinity \<Rightarrow> (if c = 0 then NaN else if c < 0 then PlusInfinity else MinusInfinity))"

definition toFixed1 :: "js_number \<Rightarrow> string" where
  "toFixed1 x =
     (case x of
        NaN \<Rightarrow> ''NaN''
      | PlusInfinity \<Rightarrow> ''Infinity''
      | MinusInfinity \<Rightarrow> ''-Infinity''
      | Finite q \<Rightarrow>
          (let n = nat \<lfloor>\<bar>q\<bar> * 10 + 1 / 2\<rfloor>
           in (if q < 0 then ''-'' else []) @ show_nat (n div 10) @ ''.'' @ show_nat (n mod 10)))"

text \<open>\<open>Math.ceil(s.length / 4)\<close>.\<close>

definition tokenCount :: "string \<Rightarrow> int" where
  "tokenCount s = \<lceil>(of_nat (length s) :: rat) / 4\<rceil>"

definition estimateTokenSavings :: "(rat \<Rightarrow> rat) \<Rightarrow> string \<Rightarrow> string \<Rightarrow> string" where
  "estimateTokenSavings rnd jsonStr toonStr =
     (let jsonTokens = tokenCount jsonStr;
          toonTokens = tokenCount toonStr;
          savings = js_times rnd (js_divide rnd (jsonTokens - toonTokens) jsonTokens) 100
      in ''~'' @ toFixed1 savings @ ''% token reduction'')"

section \<open>The decoder\<close>

text \<open>
  A decoded record holds numbers, booleans, strings and nested records, nothing else:
  \<open>parseToon\<close> starts every record as \<open>{}\<close> and changes it through \<open>setNestedValue\<close> only.
\<close>

datatype 'n dvalue =
    DNum 'n
  | DBool bool
  | DStr string
  | DObj "(string \<times> 'n dvalue) list"

text \<open>
  \<open>setNestedValue\<close>: \<open>assignPath\<close> is the walk along \<open>keys\<close> from the object \<open>current\<close>.

  For a segment before the last, \<open>key in current\<close> holds for an own property and for an
  inherited member; only otherwise is \<open>{}\<close> stored under the key. The step
  \<open>current = current[key]\<close> then goes to the own property. When that is a number, a
  boolean or a string, what follows fails in this strict-mode module: \<open>key in current\<close>
  raises a \<open>TypeError\<close> on a primitive, and so does the assignment of a property to a
  primitive, except for the one key \<open>__proto__\<close>, whose inherited setter takes the call
  and does nothing. When there is no own property, the step goes to the inherited
  member.

  For the last segment, the assignment is \<open>obj_set\<close>; the one assignment that would
  replace the prototype of the record, that of an object to \<open>__proto__\<close>, is marked.
  With an empty key list (\<open>''.split('')\<close>), \<open>keys[keys.length - 1]\<close> is \<open>undefined\<close> and
  the property assigned is the one named \<open>undefined\<close>.
\<close>

fun assignPath ::
  "string list \<Rightarrow> 'n dvalue \<Rightarrow> (string \<times> 'n dvalue) list \<Rightarrow> error + (string \<times> 'n dvalue) list" where
  "assignPath [] v current = Inr (obj_set current ''undefined'' v)"
| "assignPath [key] v current =
     (case v of
        DObj sub \<Rightarrow>
          if key = ''__proto__'' \<and> \<not> has_key current key then Inl PrototypeWalk
          else Inr (obj_set current key v)
      | _ \<Rightarrow> Inr (obj_set current key v))"
| "assignPath (key # key' # keys) v current =
     (let current1 = (if \<not> in_object current key then obj_set current key (DObj []) else current)
      in case map_of current1 key of
           None \<Rightarrow> Inl PrototypeWalk
         | Some (DObj sub) \<Rightarrow>
             (case assignPath (key' # keys) v sub of
                Inl e \<Rightarrow> Inl e
              | Inr sub' \<Rightarrow> Inr (obj_set current1 key (DObj sub')))
         | Some scalar \<Rightarrow>
             if keys = [] \<and> key' = ''__proto__'' then Inr current1 else Inl TypeError)"

definition setNestedValue ::
  "(string \<times> 'n dvalue) list \<Rightarrow> string \<Rightarrow> 'n dvalue \<Rightarrow> string \<Rightarrow> error + (string \<times> 'n dvalue) list" where
  "setNestedValue obj path v separator = assignPath (js_split path separator) v obj"

text \<open>The type conversion of one token (the \<open>if\<close> chain in the loop of \<open>parseToon\<close>);
  \<open>toNumber\<close> is the built-in \<open>Number\<close>, with \<open>None\<close> for \<open>NaN\<close>.\<close>

definition coerceValue :: "(string \<Rightarrow> 'n option) \<Rightarrow> bool \<Rightarrow> bool \<Rightarrow> string \<Rightarrow> 'n dvalue" where
  "coerceValue toNumber parseNumbers parseBooleans v =
     (if parseNumbers \<and> toNumber v \<noteq> None \<and> v \<noteq> [] then DNum (the (toNumber v))
      else if parseBooleans then
        (if v = ''true'' then DBool True else if v = ''false'' then DBool False else DStr v)
      else DStr v)"

text \<open>The inner loop of \<open>parseToon\<close> over the keys, from index \<open>i\<close> on; \<open>values[i] ?? ''\<close>
  is the empty string beyond the end of \<open>values\<close>.\<close>

fun parseFields ::
  "(string \<Rightarrow> 'n option) \<Rightarrow> bool \<Rightarrow> bool \<Rightarrow> string \<Rightarrow> string list \<Rightarrow> nat \<Rightarrow> string list
     \<Rightarrow> (string \<times> 'n dvalue) list \<Rightarrow> error + (string \<times> 'n dvalue) list" where
  "parseFields toNumber parseNumbers parseBooleans nestedSeparator vals i [] record = Inr record"
| "parseFields toNumber parseNumbers parseBooleans nestedSeparator vals i (key # keys) record =
     (let v = coerceValue toNumber parseNumbers parseBooleans
                (if i < length vals then vals ! i else [])
      in case setNestedValue record key v nestedSeparator of
           Inl e \<Rightarrow> Inl e
         | Inr record' \<Rightarrow>
             parseFields toNumber parseNumbers parseBooleans nestedSeparator vals (Suc i) keys
               record')"

text \<open>The outer loop over the data lines, \<open>records\<close> being the accumulator.\<close>

fun parseRows ::
  "(string \<Rightarrow> 'n option) \<Rightarrow> bool \<Rightarrow> bool \<Rightarrow> string \<Rightarrow> string \<Rightarrow> string list \<Rightarrow> string list
     \<Rightarrow> (string \<times> 'n dvalue) list list \<Rightarrow> error + (string \<times> 'n dvalue) list list" where
  "parseRows toNumber parseNumbers parseBooleans delimiter nestedSeparator keys [] records =
     Inr records"
| "parseRows toNumber parseNumbers parseBooleans delimiter nestedSeparator keys (line # rest)
     records =
     (if trim line = [] then
        parseRows toNumber parseNumbers parseBooleans delimiter nestedSeparator keys rest records
      else
        (case parseFields toNumber parseNumbers parseBooleans nestedSeparator
                (parseDelimitedLine line delimiter) 0 keys [] of
           Inl e \<Rightarrow> Inl e
         | Inr record \<Rightarrow>
             parseRows toNumber parseNumbers parseBooleans delimiter nestedSeparator keys rest
               (records @ [record])))"

text \<open>Schema detection: the key list and the data lines, from the lines of the text.\<close>

definition fieldKeys :: "nat \<Rightarrow> string list" where
  "fieldKeys n = map (\<lambda>idx. ''field'' @ show_nat idx) [0..<n]"

definition detectSchema :: "string \<Rightarrow> string list \<Rightarrow> string \<Rightarrow> string list \<times> string list" where
  "detectSchema schemaLine rest delimiter =
     (if startsWith schemaLine ''@schema''
      then (js_split (removeFirst (''@schema'' @ delimiter) schemaLine) delimiter, rest)
      else (fieldKeys (length (parseDelimitedLine schemaLine delimiter)), schemaLine # rest))"

text \<open>The result of \<open>parseToon\<close> is one record or an array of records.\<close>

datatype 'n decoded =
    Single "(string \<times> 'n dvalue) list"
  | Many "(string \<times> 'n dvalue) list list"

definition shapeOutput :: "string \<Rightarrow> (string \<times> 'n dvalue) list list \<Rightarrow> 'n decoded" where
  "shapeOutput outputFormat records =
     (if outputFormat = ''auto'' then
        (case records of [record] \<Rightarrow> Single record | _ \<Rightarrow> Many records)
      else if outputFormat = ''object'' then
        (case records of [] \<Rightarrow> Single [] | record # _ \<Rightarrow> Single record)
      else Many records)"

definition parseToon ::
  "(string \<Rightarrow> 'n option) \<Rightarrow> string \<Rightarrow> string \<Rightarrow> string \<Rightarrow> string \<Rightarrow> bool \<Rightarrow> bool
     \<Rightarrow> error + 'n decoded" where
  "parseToon toNumber toon delimiter nestedSeparator outputFormat parseNumbers parseBooleans =
     (case js_split (trim toon) [newline] of
        [] \<Rightarrow> Inr (if outputFormat = ''array'' then Many [] else Single [])
      | schemaLine # rest \<Rightarrow>
          (case detectSchema schemaLine rest delimiter of
             (keys, dataLines) \<Rightarrow>
               (case parseRows toNumber parseNumbers parseBooleans delimiter nestedSeparator
                       keys dataLines [] of
                  Inl e \<Rightarrow> Inl e
                | Inr records \<Rightarrow> Inr (shapeOutput outputFormat records))))"

section \<open>Notions used in the statements\<close>

text \<open>A flat value is a primitive or an array; \<open>fieldText\<close> is the text of its field,
  \<open>String(v ?? '')\<close>, an array being joined with commas. \<open>flattenedValue v t\<close> is what
  \<open>flattenObject\<close> stores for a flat value \<open>v\<close> whose text is \<open>t\<close>.\<close>

definition flat_value :: "'n json \<Rightarrow> bool" where
  "flat_value v = (case v of JObj ps \<Rightarrow> False | _ \<Rightarrow> True)"

definition fieldText :: "('n \<Rightarrow> string) \<Rightarrow> 'n json \<Rightarrow> error + string" where
  "fieldText numToString v = stringOrEmpty numToString (Some v)"

definition flattenedValue :: "'n json \<Rightarrow> string \<Rightarrow> 'n json" where
  "flattenedValue v t = (case v of JArr xs \<Rightarrow> JStr t | _ \<Rightarrow> v)"

text \<open>The value found by following a key path through the own properties of nested
  records, and the record that holds one value at the end of a key path.\<close>

fun lookupPath :: "string list \<Rightarrow> (string \<times> 'n dvalue) list \<Rightarrow> 'n dvalue option" where
  "lookupPath [] obj = None"
| "lookupPath [key] obj = map_of obj key"
| "lookupPath (key # key' # keys) obj =
     (case map_of obj key of
        Some (DObj sub) \<Rightarrow> lookupPath (key' # keys) sub
      | _ \<Rightarrow> None)"

fun nestPath :: "string list \<Rightarrow> 'n dvalue \<Rightarrow> (string \<times> 'n dvalue) list" where
  "nestPath [] v = []"
| "nestPath [key] v = [(key, v)]"
| "nestPath (key # key' # keys) v = [(key, DObj (nestPath (key' # keys) v))]"

text \<open>A field text that the tokenizer reads back from its escaped form: it is quoted
  (it contains the delimiter or a newline), or it has no quote character.\<close>

definition tokenizable :: "char \<Rightarrow> string \<Rightarrow> bool" where
  "tokenizable c t = (c \<in> set t \<or> newline \<in> set t \<or> dquote \<notin> set t)"

text \<open>Concrete built-ins and a concrete object, for the instances below: \<open>Number\<close> and
  \<open>String\<close> restricted to the number 30.\<close>

definition example_toNumber :: "string \<Rightarrow> int option" where
  "example_toNumber s = (if s = ''30'' then Some 30 else None)"

definition example_numToString :: "int \<Rightarrow> string" where
  "example_numToString n = (if n = 30 then ''30'' else ''0'')"

definition example_object :: "(string \<times> int json) list" where
  "example_object =
     [(''name'', JStr ''J|\"o\"''), (''age'', JNum 30), (''tags'', JArr [JStr ''x'', JStr ''y'']),
      (''ok'', JBool True)]"

section \<open>Built-in string functions: basic facts\<close>

lemma startsWith_single: "startsWith (x # xs) [c] = (x = c)"
  by (simp add: startsWith_def)

lemma js_includes_single: "js_includes s [c] = (c \<in> set s)"
  by (induction s) (auto simp: startsWith_single)

lemma doubleQuotes_Nil: "doubleQuotes [] = []"
  by (simp add: doubleQuotes_def)

lemma doubleQuotes_Cons:
  "doubleQuotes (x # s) = (if x = dquote then dquote # dquote # doubleQuotes s else x # doubleQuotes s)"
  by (simp add: doubleQuotes_def)

section \<open>The tokenizer against the field escaping\<close>

lemma tokenize_open:
  "tokenize d vs cur False (dquote # rest) = tokenize d vs cur True rest"
  by (cases rest) auto

lemma tokenize_closing:
  "rest = [] \<or> hd rest \<noteq> dquote \<Longrightarrow>
   tokenize d vs cur True (dquote # rest) = tokenize d vs cur False rest"
  by (cases rest) auto

lemma tokenize_escaped:
  "tokenize d vs cur True (dquote # dquote # rest) = tokenize d vs (cur @ [dquote]) True rest"
  by simp

lemma tokenize_other:
  "c \<noteq> dquote \<Longrightarrow>
   tokenize d vs cur q (c # rest) =
     (if [c] = d \<and> \<not> q then tokenize d (vs @ [cur]) [] q rest
      else tokenize d vs (cur @ [c]) q rest)"
  by simp

lemma tokenize_quoted:
  "rest = [] \<or> hd rest \<noteq> dquote \<Longrightarrow>
   tokenize d vs cur True (doubleQuotes s @ dquote # rest) = tokenize d vs (cur @ s) False rest"
proof (induction s arbitrary: cur)
  case Nil
  then show ?case by (simp add: doubleQuotes_Nil tokenize_closing del: tokenize.simps)
next
  case (Cons x s)
  then show ?case by (simp add: doubleQuotes_Cons)
qed

lemma tokenize_plain:
  "dquote \<notin> set s \<Longrightarrow> (\<forall>x \<in> set s. [x] \<noteq> d) \<or> q \<Longrightarrow>
   tokenize d vs cur q (s @ rest) = tokenize d vs (cur @ s) q rest"
  by (induction s arbitrary: cur) auto

lemma tokenize_length_le:
  "length (concat (tokenize d vs cur q s)) \<le> length (concat vs) + length cur + length s"
proof (induction s arbitrary: vs cur q rule: length_induct)
  case (1 s)
  show ?case
  proof (cases s)
    case Nil
    then show ?thesis by simp
  next
    case (Cons c rest)
    note s = this
    show ?thesis
    proof (cases "c = dquote")
      case True
      note c = this
      show ?thesis
      proof (cases rest)
        case Nil
        with c s show ?thesis by simp
      next
        case (Cons c' rest')
        have a: "length (concat (tokenize d vs (cur @ [dquote]) q rest'))
                 \<le> length (concat vs) + length (cur @ [dquote]) + length rest'"
          by (rule 1[rule_format]) (simp add: s Cons)
        have b: "length (concat (tokenize d vs cur (\<not> q) rest))
                 \<le> length (concat vs) + length cur + length rest"
          by (rule 1[rule_format]) (simp add: s)
        show ?thesis
        proof (cases "q \<and> c' = dquote")
          case True
          with a c s Cons show ?thesis by simp
        next
          case False
          with b c s Cons show ?thesis by auto
        qed
      qed
    next
      case False
      have a: "length (concat (tokenize d (vs @ [cur]) [] q rest))
                 \<le> length (concat (vs @ [cur])) + length ([] :: string) + length rest"
        by (rule 1[rule_format]) (simp add: s)
      have b: "length (concat (tokenize d vs (cur @ [c]) q rest))
                 \<le> length (concat vs) + length (cur @ [c]) + length rest"
        by (rule 1[rule_format]) (simp add: s)
      from a b False s show ?thesis by (auto simp: tokenize_other simp del: tokenize.simps)
    qed
  qed
qed

lemma tokenize_length_less:
  "dquote \<in> set s \<Longrightarrow>
   length (concat (tokenize d vs cur q s)) < length (concat vs) + length cur + length s"
proof (induction s arbitrary: vs cur q)
  case Nil
  then show ?case by simp
next
  case (Cons c rest)
  show ?case
  proof (cases "c = dquote")
    case True
    note c = this
    show ?thesis
    proof (cases rest)
      case Nil
      with c show ?thesis by simp
    next
      case (Cons c' rest')
      show ?thesis
      proof (cases "q \<and> c' = dquote")
        case True
        with c Cons tokenize_length_le[of d vs "cur @ [dquote]" q rest'] show ?thesis by simp
      next
        case False
        with c Cons tokenize_length_le[of d vs cur "\<not> q" rest] show ?thesis by auto
      qed
    qed
  next
    case False
    with Cons.prems have r: "dquote \<in> set rest" by auto
    have a: "length (concat (tokenize d (vs @ [cur]) [] q rest))
               < length (concat (vs @ [cur])) + length ([] :: string) + length rest"
      by (rule Cons.IH[OF r])
    have b: "length (concat (tokenize d vs (cur @ [c]) q rest))
               < length (concat vs) + length (cur @ [c]) + length rest"
      by (rule Cons.IH[OF r])
    from a b False show ?thesis by (auto simp: tokenize_other simp del: tokenize.simps)
  qed
qed

text \<open>
  C3 (amended). For a one-character delimiter, tokenizing an escaped field gives back
  the field as the only token exactly when the field contains the delimiter or a
  newline (it is then quoted), or contains no quote character. A field with a quote
  character but neither delimiter nor newline is emitted bare, and the tokenizer drops
  quote characters from it.
\<close>

theorem tokenizer_inverts_escapeValue_iff:
  "parseDelimitedLine (escapeValue s [c]) [c] = [s]
     \<longleftrightarrow> (c \<in> set s \<or> newline \<in> set s \<or> dquote \<notin> set s)"
proof (cases "c \<in> set s \<or> newline \<in> set s")
  case True
  then have "escapeValue s [c] = dquote # doubleQuotes s @ [dquote]"
    by (simp add: escapeValue_def js_includes_single)
  moreover have "tokenize [c] [] [] False (dquote # doubleQuotes s @ [dquote])
      = tokenize [c] [] [] True (doubleQuotes s @ [dquote])"
    by (rule tokenize_open)
  moreover have "tokenize [c] [] [] True (doubleQuotes s @ dquote # []) = tokenize [c] [] ([] @ s) False []"
    by (rule tokenize_quoted) simp
  ultimately have "parseDelimitedLine (escapeValue s [c]) [c] = [s]"
    by (simp add: parseDelimitedLine_def del: tokenize.simps(2))
  with True show ?thesis by blast
next
  case False
  then have esc: "escapeValue s [c] = s"
    by (simp add: escapeValue_def js_includes_single)
  show ?thesis
  proof (cases "dquote \<in> set s")
    case True
    from tokenize_length_less[OF True, of "[c]" "[]" "[]" False]
    have "tokenize [c] [] [] False s \<noteq> [s]" by auto
    with True False esc show ?thesis by (simp add: parseDelimitedLine_def)
  next
    case q: False
    from False have "\<forall>x \<in> set s. [x] \<noteq> [c]" by auto
    then have "tokenize [c] [] [] False (s @ []) = tokenize [c] [] ([] @ s) False []"
      using q by (intro tokenize_plain) auto
    with q False esc show ?thesis by (simp add: parseDelimitedLine_def)
  qed
qed

text \<open>The field consisting of one quote character is emitted as it is, and read back
  as the empty token.\<close>

theorem tokenizer_inverts_escapeValue_counterexample:
  "parseDelimitedLine (escapeValue [dquote] ''|'') ''|'' \<noteq> [[dquote]]"
  by (simp add: parseDelimitedLine_def escapeValue_def startsWith_def)

theorem tokenizer_inverts_escapeValue_iff_witness:
  "parseDelimitedLine (escapeValue ''say \"a|b\"'' ''|'') ''|'' = [''say \"a|b\"'']"
  using tokenizer_inverts_escapeValue_iff [of "''say \"a|b\"''" "CHR ''|''"] by simp

section \<open>Type conversion of a token\<close>

text \<open>
  C7. For a non-empty token the numeric check comes first: with \<open>parseNumbers\<close> on and
  \<open>Number(token)\<close> not \<open>NaN\<close> the value is that number; otherwise, with \<open>parseBooleans\<close>
  on, the tokens \<open>true\<close> and \<open>false\<close> become booleans; otherwise the token stays a
  string. As \<open>Number("true")\<close> is \<open>NaN\<close>, the token \<open>true\<close> becomes the boolean even with
  \<open>parseNumbers\<close> on.
\<close>

theorem numeric_check_before_boolean:
  "(v \<noteq> [] \<longrightarrow>
      coerceValue toNumber parseNumbers parseBooleans v =
        (if parseNumbers \<and> toNumber v \<noteq> None then DNum (the (toNumber v))
         else if parseBooleans \<and> v = ''true'' then DBool True
         else if parseBooleans \<and> v = ''false'' then DBool False
         else DStr v))
   \<and> (toNumber ''true'' = None \<longrightarrow>
        coerceValue toNumber True True ''true'' = DBool True)"
  by (auto simp: coerceValue_def)

theorem numeric_check_before_boolean_witness:
  "(''42'' \<noteq> [] \<and>
      coerceValue (\<lambda>s. if s = ''42'' then Some (42 :: int) else None) True True ''42''
        = DNum 42)
   \<and> ((\<lambda>s. if s = ''42'' then Some (42 :: int) else None) ''true'' = None \<and>
        coerceValue (\<lambda>s. if s = ''42'' then Some (42 :: int) else None) True True ''true''
          = DBool True)"
  using numeric_check_before_boolean
    [of "''42''" "\<lambda>s. if s = ''42'' then Some (42 :: int) else None" True True]
  by simp

section \<open>Output shaping\<close>

lemma splitFrom_not_Nil: "splitFrom sep cur s \<noteq> []"
  by (induction sep cur s rule: splitFrom.induct) auto

lemma js_split_newline_not_Nil: "js_split s [newline] \<noteq> []"
  by (simp add: js_split_def splitFrom_not_Nil)

text \<open>The result of \<open>parseToon\<close> is the shaped list of the parsed rows: the guard on
  \<open>lines.length === 0\<close> never applies, because \<open>split\<close> returns at least one line.\<close>

lemma parseToon_shapes_rows:
  "parseToon toNumber toon delimiter nestedSeparator outputFormat parseNumbers parseBooleans =
     (case js_split (trim toon) [newline] of
        schemaLine # rest \<Rightarrow>
          (case parseRows toNumber parseNumbers parseBooleans delimiter nestedSeparator
                  (fst (detectSchema schemaLine rest delimiter))
                  (snd (detectSchema schemaLine rest delimiter)) [] of
             Inl e \<Rightarrow> Inl e
           | Inr records \<Rightarrow> Inr (shapeOutput outputFormat records)))"
  using js_split_newline_not_Nil[of "trim toon"]
  by (cases "js_split (trim toon) [newline]") (auto simp: parseToon_def split: prod.splits)

text \<open>
  C6. For every list of row records: \<open>array\<close> gives the whole list in order; \<open>object\<close>
  gives the first record, or the empty object when there is none; \<open>auto\<close> gives the
  record when there is exactly one, and the whole list otherwise (the empty list for no
  rows). The rows that \<open>parseToon\<close> returns for \<open>array\<close> are the rows it shapes for
  every other output format.
\<close>

theorem output_shaping:
  "shapeOutput ''array'' records = Many records
   \<and> shapeOutput ''object'' records = Single (if records = [] then [] else hd records)
   \<and> shapeOutput ''auto'' records =
       (if length records = 1 then Single (hd records) else Many records)
   \<and> shapeOutput ''auto'' [] = (Many [] :: 'n decoded)
   \<and> (parseToon toNumber toon delimiter nestedSeparator ''array'' parseNumbers parseBooleans
         = Inr (Many rows) \<longrightarrow>
       parseToon toNumber toon delimiter nestedSeparator outputFormat parseNumbers parseBooleans
         = Inr (shapeOutput outputFormat rows))"
proof -
  have shapes: "shapeOutput ''array'' records = Many records
   \<and> shapeOutput ''object'' records = Single (if records = [] then [] else hd records)
   \<and> shapeOutput ''auto'' records =
       (if length records = 1 then Single (hd records) else Many records)
   \<and> shapeOutput ''auto'' [] = (Many [] :: 'n decoded)"
    by (cases records; cases "tl records") (auto simp: shapeOutput_def)
  have "parseToon toNumber toon delimiter nestedSeparator outputFormat parseNumbers parseBooleans
         = Inr (shapeOutput outputFormat rows)"
    if a: "parseToon toNumber toon delimiter nestedSeparator ''array'' parseNumbers parseBooleans
         = Inr (Many rows)"
  proof -
    obtain schemaLine rest where l: "js_split (trim toon) [newline] = schemaLine # rest"
      using js_split_newline_not_Nil [of "trim toon"] by (cases "js_split (trim toon) [newline]") auto
    let ?rows = "parseRows toNumber parseNumbers parseBooleans delimiter nestedSeparator
                  (fst (detectSchema schemaLine rest delimiter))
                  (snd (detectSchema schemaLine rest delimiter)) []"
    from a l have "?rows = Inr rows"
      by (cases ?rows) (simp_all add: parseToon_shapes_rows shapeOutput_def)
    with l show ?thesis
      by (simp add: parseToon_shapes_rows)
  qed
  with shapes show ?thesis
    by blast
qed

theorem output_shaping_witness:
  "parseToon example_toNumber ''a|30'' ''|'' ''.'' ''array'' True True
     = Inr (Many [[(''field0'', DStr ''a''), (''field1'', DNum 30)]])
   \<and> parseToon example_toNumber ''a|30'' ''|'' ''.'' ''auto'' True True
     = Inr (Single [(''field0'', DStr ''a''), (''field1'', DNum 30)])
   \<and> parseToon example_toNumber ''a|30'' ''|'' ''.'' ''object'' True True
     = Inr (Single [(''field0'', DStr ''a''), (''field1'', DNum 30)])"
proof -
  have a: "parseToon example_toNumber ''a|30'' ''|'' ''.'' ''array'' True True
     = Inr (Many [[(''field0'', DStr ''a''), (''field1'', DNum 30)]])"
    by code_simp
  from output_shaping [of "[]" example_toNumber "''a|30''" "''|''" "''.''" True True
      "[[(''field0'', DStr ''a''), (''field1'', DNum 30)]]" "''auto''"]
    output_shaping [of "[]" example_toNumber "''a|30''" "''|''" "''.''" True True
      "[[(''field0'', DStr ''a''), (''field1'', DNum 30)]]" "''object''"]
    a
  show ?thesis
    by (simp add: shapeOutput_def)
qed

section \<open>Blank input\<close>

lemma trim_blank: "\<forall>c \<in> set s. is_js_space c \<Longrightarrow> trim s = []"
proof -
  assume "\<forall>c \<in> set s. is_js_space c"
  then have d: "dropWhile is_js_space s = []"
    by (simp add: dropWhile_eq_Nil_conv)
  show ?thesis
    unfolding trim_def d by simp
qed

lemma not_startsWith_Nil: "p \<noteq> [] \<Longrightarrow> \<not> startsWith [] p"
  by (simp add: startsWith_def)

text \<open>
  C8. For a text that is empty or consists of white space only, decoding raises no error
  and produces no row: the result is the empty object for the output format \<open>object\<close>
  and the empty list for \<open>array\<close> (and for \<open>auto\<close> and any other format).
\<close>

theorem blank_text_decodes_to_empty:
  "\<forall>c \<in> set toon. is_js_space c \<Longrightarrow>
   parseToon toNumber toon delimiter nestedSeparator outputFormat parseNumbers parseBooleans =
     Inr (if outputFormat = ''object'' then Single [] else Many [])"
proof -
  assume "\<forall>c \<in> set toon. is_js_space c"
  then have "trim toon = []"
    by (rule trim_blank)
  moreover have "trim [] = []"
    by (simp add: trim_def)
  ultimately show ?thesis
    by (simp add: parseToon_def js_split_def detectSchema_def not_startsWith_Nil shapeOutput_def)
qed

theorem blank_text_decodes_to_empty_witness:
  "list_all is_js_space [CHR '' '', newline, CHR '' '']
   \<and> parseToon (\<lambda>s. None :: int option) [CHR '' '', newline, CHR '' ''] ''|'' ''.'' ''object'' True True
       = Inr (Single [])
   \<and> parseToon (\<lambda>s. None :: int option) [CHR '' '', newline, CHR '' ''] ''|'' ''.'' ''array'' True True
       = Inr (Many [])"
  using blank_text_decodes_to_empty
    [of "[CHR '' '', newline, CHR '' '']" "\<lambda>s. None :: int option" "''|''" "''.''" "''object''" True True]
    blank_text_decodes_to_empty
    [of "[CHR '' '', newline, CHR '' '']" "\<lambda>s. None :: int option" "''|''" "''.''" "''array''" True True]
  by (simp add: is_js_space_def)

section \<open>Decoding without a schema line\<close>

lemma length_fieldKeys: "length (fieldKeys n) = n"
  by (simp add: fieldKeys_def)

lemma nth_fieldKeys: "i < n \<Longrightarrow> fieldKeys n ! i = ''field'' @ show_nat i"
  by (simp add: fieldKeys_def)

text \<open>
  C9. When the first line of the trimmed text does not start with \<open>@schema\<close>, all lines,
  the first included, are data lines, and the keys are \<open>field0\<close>, \<open>field1\<close>, ... by
  position: as many as the first line has tokens under the delimiter.
\<close>

theorem schemaless_keys:
  "js_split (trim toon) [newline] = line # rest \<and> \<not> startsWith line ''@schema'' \<longrightarrow>
     detectSchema line rest delimiter =
       (fieldKeys (length (parseDelimitedLine line delimiter)), line # rest)
     \<and> length (fieldKeys (length (parseDelimitedLine line delimiter)))
         = length (parseDelimitedLine line delimiter)
     \<and> (\<forall>i < length (parseDelimitedLine line delimiter).
           fieldKeys (length (parseDelimitedLine line delimiter)) ! i = ''field'' @ show_nat i)
     \<and> parseToon toNumber toon delimiter nestedSeparator outputFormat parseNumbers parseBooleans =
         (case parseRows toNumber parseNumbers parseBooleans delimiter nestedSeparator
                 (fieldKeys (length (parseDelimitedLine line delimiter))) (line # rest) [] of
            Inl e \<Rightarrow> Inl e
          | Inr records \<Rightarrow> Inr (shapeOutput outputFormat records))"
  by (simp add: detectSchema_def length_fieldKeys nth_fieldKeys parseToon_def)

lemma show_nat_digit: "n < 10 \<Longrightarrow> show_nat n = [digit_char n]"
  by simp

theorem schemaless_keys_witness:
  "js_split (trim ''a|b|c'') [newline] = [''a|b|c''] \<and> \<not> startsWith ''a|b|c'' ''@schema''
   \<and> detectSchema ''a|b|c'' [] ''|'' = ([''field0'', ''field1'', ''field2''], [''a|b|c''])
   \<and> parseToon (\<lambda>s. None :: int option) ''a|b|c'' ''|'' ''.'' ''array'' True True =
       Inr (Many [[(''field0'', DStr ''a''), (''field1'', DStr ''b''), (''field2'', DStr ''c'')]])"
proof -
  have h: "js_split (trim ''a|b|c'') [newline] = [''a|b|c''] \<and> \<not> startsWith ''a|b|c'' ''@schema''"
    by code_simp
  have f: "fieldKeys (length (parseDelimitedLine ''a|b|c'' ''|'')) = [''field0'', ''field1'', ''field2'']"
    by code_simp
  have r: "parseRows (\<lambda>s. None :: int option) True True ''|'' ''.'' [''field0'', ''field1'', ''field2'']
             [''a|b|c''] []
           = Inr [[(''field0'', DStr ''a''), (''field1'', DStr ''b''), (''field2'', DStr ''c'')]]"
    by code_simp
  from schemaless_keys [THEN mp, OF h, of "''|''" "\<lambda>s. None :: int option" "''.''" "''array''" True True]
  have "detectSchema ''a|b|c'' [] ''|'' = ([''field0'', ''field1'', ''field2''], [''a|b|c''])"
    and "parseToon (\<lambda>s. None :: int option) ''a|b|c'' ''|'' ''.'' ''array'' True True =
       Inr (shapeOutput ''array''
         [[(''field0'', DStr ''a''), (''field1'', DStr ''b''), (''field2'', DStr ''c'')]])"
    unfolding f r by simp_all
  with h show ?thesis
    by (simp add: shapeOutput_def)
qed

section \<open>The token-savings estimate: no guard for the empty JSON string\<close>

lemma tokenCount_ceil: "tokenCount s = int ((length s + 3) div 4)"
proof -
  have "\<lceil>(of_nat (length s) :: rat) / 4\<rceil> = \<lceil>(of_int (int (length s)) :: rat) / of_int 4\<rceil>"
    by simp
  also have "\<dots> = - ((- int (length s)) div 4)"
    by (simp only: ceiling_divide_eq_div)
  also have "\<dots> = int ((length s + 3) div 4)"
    by linarith
  finally show ?thesis
    by (simp add: tokenCount_def)
qed

lemma tokenCount_zero: "tokenCount s = 0 \<longleftrightarrow> s = []"
proof -
  have "(length s + 3) div 4 = 0 \<longleftrightarrow> length s = 0"
    by presburger
  then show ?thesis
    by (simp add: tokenCount_ceil)
qed

lemma tokenCount_nonneg: "0 \<le> tokenCount s"
  by (simp add: tokenCount_ceil)

text \<open>A finite value is printed with one digit after the point.\<close>

lemma toFixed1_one_decimal:
  "\<exists>whole d. toFixed1 (Finite q) = whole @ ''.'' @ [d] \<and> d \<in> set ''0123456789''"
proof -
  define n where "n = nat \<lfloor>\<bar>q\<bar> * 10 + 1 / 2\<rfloor>"
  have "n mod 10 < 10"
    by simp
  then have "show_nat (n mod 10) = [digit_char (n mod 10)]"
    by (rule show_nat_digit)
  moreover have "digit_char (n mod 10) \<in> set ''0123456789''"
    unfolding digit_char_def by (rule nth_mem) simp
  ultimately show ?thesis
    unfolding toFixed1_def n_def [symmetric]
    by (auto simp: Let_def n_def [symmetric] simp del: show_nat.simps)
qed

text \<open>
  C5 (amended). The token counts are \<open>ceil(length / 4)\<close> of the two strings, and the
  estimate is \<open>(jsonTokens - toonTokens) / jsonTokens * 100\<close> printed by \<open>toFixed(1)\<close>
  between \<open>~\<close> and \<open>% token reduction\<close>. For a JSON string that is not empty the value
  is finite and printed with one digit after the point. There is no guard for the
  empty JSON string: the division by zero gives \<open>NaN\<close> when the TOON string is empty
  too and \<open>-Infinity\<close> otherwise, and that is what is printed.
\<close>

theorem token_savings_estimate:
  "tokenCount s = int ((length s + 3) div 4)
   \<and> estimateTokenSavings rnd jsonStr toonStr =
       ''~'' @ toFixed1 (js_times rnd
                 (js_divide rnd (tokenCount jsonStr - tokenCount toonStr) (tokenCount jsonStr)) 100)
         @ ''% token reduction''
   \<and> (jsonStr \<noteq> [] \<longrightarrow>
        (\<exists>whole d. estimateTokenSavings rnd jsonStr toonStr
            = ''~'' @ whole @ ''.'' @ [d] @ ''% token reduction''
            \<and> d \<in> set ''0123456789''))
   \<and> estimateTokenSavings rnd [] [] = ''~NaN% token reduction''
   \<and> (toonStr \<noteq> [] \<longrightarrow> estimateTokenSavings rnd [] toonStr = ''~-Infinity% token reduction'')"
proof (intro conjI impI)
  show "tokenCount s = int ((length s + 3) div 4)"
    by (rule tokenCount_ceil)
  show "estimateTokenSavings rnd jsonStr toonStr =
       ''~'' @ toFixed1 (js_times rnd
                 (js_divide rnd (tokenCount jsonStr - tokenCount toonStr) (tokenCount jsonStr)) 100)
         @ ''% token reduction''"
    by (simp add: estimateTokenSavings_def Let_def)
  show "estimateTokenSavings rnd [] [] = ''~NaN% token reduction''"
    by (simp add: estimateTokenSavings_def tokenCount_def js_divide_def js_times_def toFixed1_def)
next
  assume "toonStr \<noteq> []"
  then have "tokenCount toonStr \<noteq> 0"
    by (simp add: tokenCount_zero)
  with tokenCount_nonneg [of toonStr] have "0 < tokenCount toonStr"
    by linarith
  moreover have "tokenCount [] = 0"
    by (simp add: tokenCount_zero)
  ultimately show "estimateTokenSavings rnd [] toonStr = ''~-Infinity% token reduction''"
    by (simp add: estimateTokenSavings_def js_divide_def js_times_def toFixed1_def)
next
  assume "jsonStr \<noteq> []"
  then have nz: "tokenCount jsonStr \<noteq> 0"
    by (simp add: tokenCount_zero)
  define q where
    "q = rnd (rnd (of_int (tokenCount jsonStr - tokenCount toonStr) / of_int (tokenCount jsonStr)) * 100)"
  from nz have "estimateTokenSavings rnd jsonStr toonStr = ''~'' @ toFixed1 (Finite q) @ ''% token reduction''"
    by (simp add: estimateTokenSavings_def js_divide_def js_times_def q_def Let_def)
  moreover obtain whole d where "toFixed1 (Finite q) = whole @ ''.'' @ [d]" "d \<in> set ''0123456789''"
    using toFixed1_one_decimal by blast
  ultimately show "\<exists>whole d. estimateTokenSavings rnd jsonStr toonStr
            = ''~'' @ whole @ ''.'' @ [d] @ ''% token reduction''
            \<and> d \<in> set ''0123456789''"
    by auto
qed

text \<open>The claim promises a guarded value for the empty JSON string; the code prints \<open>NaN\<close>.\<close>

theorem token_savings_estimate_counterexample:
  "estimateTokenSavings id [] [] = ''~NaN% token reduction''"
  by (simp add: estimateTokenSavings_def tokenCount_def js_divide_def js_times_def toFixed1_def)

theorem token_savings_estimate_witness:
  "''{\"a\":1}'' \<noteq> [] \<and> ''@schema|a'' \<noteq> []
   \<and> estimateTokenSavings id ''{\"a\":1}'' ''1'' = ''~50.0% token reduction''
   \<and> estimateTokenSavings id [] ''@schema|a'' = ''~-Infinity% token reduction''"
proof -
  have "estimateTokenSavings id ''{\"a\":1}'' ''1'' = ''~50.0% token reduction''"
    by code_simp
  with token_savings_estimate [of "[]" id "''{\"a\":1}''" "''@schema|a''"] show ?thesis
    by simp
qed

section \<open>Objects: assignment and lookup\<close>

lemma has_key_map_of: "has_key obj k \<longleftrightarrow> map_of obj k \<noteq> None"
  by (simp add: has_key_def map_of_eq_None_iff)

lemma map_of_insert_prop:
  "k \<notin> fst ` set obj \<Longrightarrow> map_of (insert_prop k v obj) = (map_of obj)(k \<mapsto> v)"
  by (induction obj) (auto simp: fun_upd_twist)

lemma map_of_obj_set:
  "has_key obj k \<or> k \<noteq> ''__proto__'' \<Longrightarrow> map_of (obj_set obj k v) = (map_of obj)(k \<mapsto> v)"
  by (auto simp: obj_set_def has_key_def map_of_insert_prop update_conv')

lemma update_same: "map_of obj k = Some v \<Longrightarrow> AList.update k v obj = obj"
  by (induction obj) (auto split: if_splits)

lemma update_insert_prop:
  "k \<notin> fst ` set obj \<Longrightarrow> AList.update k v (insert_prop k w obj) = insert_prop k v obj"
  by (induction obj) auto

lemma not_in_object: "\<not> in_object obj k \<longleftrightarrow> \<not> has_key obj k \<and> \<not> inherited_member k"
  by (simp add: in_object_def)

lemma proto_inherited: "inherited_member ''__proto__''"
  by (simp add: inherited_member_def)

section \<open>Nested keys: a scalar on the path\<close>

text \<open>In a fresh object every level of a path is created, when no segment before the
  last names an inherited member and the last is not \<open>__proto__\<close>.\<close>

lemma assignPath_fresh:
  "keys \<noteq> [] \<Longrightarrow> list_all (\<lambda>k. \<not> inherited_member k) (butlast keys) \<Longrightarrow>
   last keys \<noteq> ''__proto__'' \<Longrightarrow> assignPath keys x [] = Inr (nestPath keys x)"
proof (induction keys x rule: nestPath.induct)
  case (1 v)
  then show ?case by simp
next
  case (2 key v)
  then show ?case
    by (cases v) (simp_all add: obj_set_def has_key_def)
next
  case (3 key key' keys v)
  then have "assignPath (key' # keys) v [] = Inr (nestPath (key' # keys) v)"
    by simp
  moreover from 3 have "key \<noteq> ''__proto__''" and "\<not> inherited_member key"
    using proto_inherited by auto
  ultimately show ?case
    by (simp add: in_object_def obj_set_def has_key_def)
qed

text \<open>A walk that meets a scalar before its last segment fails, unless the one segment
  left is \<open>__proto__\<close>.\<close>

lemma assignPath_onto_scalar:
  assumes "map_of obj key = Some v" and "\<forall>sub. v \<noteq> DObj sub" and "rest \<noteq> []"
  shows "assignPath (key # rest) x obj = (if rest = [''__proto__''] then Inr obj else Inl TypeError)"
proof -
  from assms(3) obtain key' keys where rest: "rest = key' # keys"
    by (cases rest) auto
  from assms(1) have "in_object obj key"
    by (simp add: in_object_def has_key_map_of)
  with assms(1,2) rest show ?thesis
    by (cases v) auto
qed

lemma assignPath_scalar_below:
  "lookupPath (pre @ [key]) obj = Some v \<Longrightarrow> \<forall>sub. v \<noteq> DObj sub \<Longrightarrow> rest \<noteq> [] \<Longrightarrow>
   assignPath (pre @ key # rest) x obj = (if rest = [''__proto__''] then Inr obj else Inl TypeError)"
proof (induction pre arbitrary: obj)
  case Nil
  then show ?case
    using assignPath_onto_scalar [of obj key v rest x] by simp
next
  case (Cons p pre)
  obtain q qs where q: "pre @ [key] = q # qs"
    by (cases "pre @ [key]") auto
  obtain q' qs' where q': "pre @ key # rest = q' # qs'"
    by (cases "pre @ key # rest") auto
  from Cons.prems(1) q obtain sub where sub: "map_of obj p = Some (DObj sub)"
    and l: "lookupPath (pre @ [key]) sub = Some v"
    by (auto split: option.splits dvalue.splits)
  from sub have i: "in_object obj p" and h: "has_key obj p"
    by (simp_all add: in_object_def has_key_map_of)
  have r: "assignPath (pre @ key # rest) x sub = (if rest = [''__proto__''] then Inr sub else Inl TypeError)"
    using l Cons.prems(2,3) by (rule Cons.IH)
  have "obj_set obj p (DObj sub) = obj"
    using h sub by (simp add: obj_set_def update_same)
  with r i sub q' show ?case
    by simp
qed

text \<open>
  C4 (amended). When a segment of a key path that is not the last one already holds a
  value that is not an object (a number, a boolean or a string assigned by an earlier
  key of the row), \<open>setNestedValue\<close> does not replace it: the walk steps onto the scalar
  and the call ends in a \<open>TypeError\<close>; only when the one segment left is \<open>__proto__\<close>
  does the call return, with the record as it was. A fresh empty object is created
  only for a segment that is not in the record, neither as an own property nor as an
  inherited member, and the rest of the path is then created inside it (when none of
  its segments before the last names an inherited member and the last is not
  \<open>__proto__\<close>).
\<close>

theorem scalar_on_path_raises:
  "(js_split path separator = pre @ key # rest \<and> rest \<noteq> []
      \<and> lookupPath (pre @ [key]) obj = Some v \<and> (\<forall>sub. v \<noteq> DObj sub)
     \<longrightarrow> setNestedValue obj path x separator
           = (if rest = [''__proto__''] then Inr obj else Inl TypeError))
   \<and> (js_split path separator = key # rest \<and> rest \<noteq> [] \<and> \<not> in_object obj key
       \<and> list_all (\<lambda>k. \<not> inherited_member k) (butlast rest) \<and> last rest \<noteq> ''__proto__''
     \<longrightarrow> setNestedValue obj path x separator
           = Inr (obj_set obj key (DObj (nestPath rest x))))"
proof (intro conjI impI)
  assume "js_split path separator = pre @ key # rest \<and> rest \<noteq> []
      \<and> lookupPath (pre @ [key]) obj = Some v \<and> (\<forall>sub. v \<noteq> DObj sub)"
  then show "setNestedValue obj path x separator
           = (if rest = [''__proto__''] then Inr obj else Inl TypeError)"
    by (simp add: setNestedValue_def assignPath_scalar_below)
next
  assume a: "js_split path separator = key # rest \<and> rest \<noteq> [] \<and> \<not> in_object obj key
       \<and> list_all (\<lambda>k. \<not> inherited_member k) (butlast rest) \<and> last rest \<noteq> ''__proto__''"
  then obtain key' keys where rest: "rest = key' # keys"
    by (cases rest) auto
  from a have fresh: "assignPath rest x [] = Inr (nestPath rest x)"
    by (simp add: assignPath_fresh)
  from a have k: "\<not> has_key obj key" and p: "key \<noteq> ''__proto__''"
    using proto_inherited by (auto simp: in_object_def)
  have created: "obj_set obj key (DObj []) = insert_prop key (DObj []) obj"
    using k p by (simp add: obj_set_def)
  have m: "map_of (insert_prop key (DObj []) obj) key = Some (DObj [])"
    using k by (simp add: map_of_insert_prop has_key_def)
  have u: "obj_set (insert_prop key (DObj []) obj) key (DObj (nestPath rest x))
      = obj_set obj key (DObj (nestPath rest x))"
  proof -
    have nk: "key \<notin> fst ` set obj"
      using k by (simp add: has_key_def)
    have hk: "has_key (insert_prop key (DObj []) obj) key"
      using m by (simp add: has_key_map_of)
    show ?thesis
      using hk k p by (simp add: obj_set_def update_insert_prop [OF nk])
  qed
  from a fresh created m u rest show "setNestedValue obj path x separator
           = Inr (obj_set obj key (DObj (nestPath rest x)))"
    by (simp add: setNestedValue_def del: assignPath.simps(2) nestPath.simps)
qed

text \<open>The claim has the scalar under \<open>a\<close> replaced by \<open>{b: "y"}\<close>; the call fails instead,
  and so does the decoding of a row with the keys \<open>a\<close> and \<open>a.b\<close>.\<close>

theorem scalar_on_path_counterexample:
  "setNestedValue [(''a'', DStr ''x'')] ''a.b'' (DStr ''y'' :: int dvalue) ''.'' = Inl TypeError
   \<and> setNestedValue [(''a'', DStr ''x'')] ''a.b'' (DStr ''y'' :: int dvalue) ''.''
       \<noteq> Inr [(''a'', DObj [(''b'', DStr ''y'')])]
   \<and> parseToon (\<lambda>s. None :: int option) [CHR ''@'', CHR ''s'', CHR ''c'', CHR ''h'', CHR ''e'',
        CHR ''m'', CHR ''a'', CHR ''|'', CHR ''a'', CHR ''|'', CHR ''a'', CHR ''.'', CHR ''b'',
        newline, CHR ''x'', CHR ''|'', CHR ''y''] ''|'' ''.'' ''object'' True True
       = Inl TypeError"
  by code_simp

theorem scalar_on_path_raises_witness:
  "js_split ''a.b.c'' ''.'' = [''a''] @ ''b'' # [''c''] \<and> [''c''] \<noteq> []
   \<and> lookupPath ([''a''] @ [''b'']) [(''a'', DObj [(''b'', DNum (30 :: int))])] = Some (DNum 30)
   \<and> (\<forall>sub. DNum 30 \<noteq> (DObj sub :: int dvalue))
   \<and> setNestedValue [(''a'', DObj [(''b'', DNum (30 :: int))])] ''a.b.c'' (DStr ''y'') ''.''
       = Inl TypeError
   \<and> js_split ''a.b'' ''.'' = ''a'' # [''b''] \<and> [''b''] \<noteq> []
   \<and> \<not> in_object [(''c'', DStr ''x'' :: int dvalue)] ''a''
   \<and> list_all (\<lambda>k. \<not> inherited_member k) (butlast [''b'']) \<and> last [''b''] \<noteq> ''__proto__''
   \<and> setNestedValue [(''c'', DStr ''x'')] ''a.b'' (DStr ''y'' :: int dvalue) ''.''
       = Inr [(''c'', DStr ''x''), (''a'', DObj [(''b'', DStr ''y'')])]"
proof -
  have s0: "js_split ''a.b.c'' ''.'' = [''a''] @ ''b'' # [''c''] \<and> [''c''] \<noteq> []
     \<and> lookupPath ([''a''] @ [''b'']) [(''a'', DObj [(''b'', DNum (30 :: int))])] = Some (DNum 30)"
    by code_simp
  then have s: "js_split ''a.b.c'' ''.'' = [''a''] @ ''b'' # [''c''] \<and> [''c''] \<noteq> []
     \<and> lookupPath ([''a''] @ [''b'']) [(''a'', DObj [(''b'', DNum (30 :: int))])] = Some (DNum 30)
     \<and> (\<forall>sub. DNum 30 \<noteq> (DObj sub :: int dvalue))"
    by simp
  have k: "js_split ''a.b'' ''.'' = ''a'' # [''b''] \<and> [''b''] \<noteq> []
     \<and> \<not> in_object [(''c'', DStr ''x'' :: int dvalue)] ''a''
     \<and> list_all (\<lambda>k. \<not> inherited_member k) (butlast [''b'']) \<and> last [''b''] \<noteq> ''__proto__''"
    by code_simp
  have r: "obj_set [(''c'', DStr ''x'' :: int dvalue)] ''a'' (DObj (nestPath [''b''] (DStr ''y'')))
       = [(''c'', DStr ''x''), (''a'', DObj [(''b'', DStr ''y'')])]"
    by code_simp
  from scalar_on_path_raises [THEN conjunct1, THEN mp, OF s, of "DStr ''y''"]
  have a: "setNestedValue [(''a'', DObj [(''b'', DNum (30 :: int))])] ''a.b.c'' (DStr ''y'') ''.''
       = Inl TypeError"
    by simp
  from scalar_on_path_raises [THEN conjunct2, THEN mp, OF k, of "DStr ''y''"]
  have b: "setNestedValue [(''c'', DStr ''x'')] ''a.b'' (DStr ''y'' :: int dvalue) ''.''
       = Inr [(''c'', DStr ''x''), (''a'', DObj [(''b'', DStr ''y'')])]"
    unfolding r .
  from s k a b show ?thesis
    by simp
qed

text \<open>A first segment that names an inherited member is in every record: nothing is
  created for it, and the walk leaves the record.\<close>

lemma assignPath_inherited_segment:
  "\<not> has_key obj key \<Longrightarrow> inherited_member key \<Longrightarrow>
   assignPath (key # key' # keys) x obj = Inl PrototypeWalk"
  by (simp add: in_object_def has_key_map_of)

section \<open>Array mode: the keys of the first element\<close>

lemma collect_Inr:
  "collect rs = Inr xs \<Longrightarrow> length xs = length rs \<and> (\<forall>i < length rs. rs ! i = Inr (xs ! i))"
proof (induction rs arbitrary: xs)
  case Nil
  then show ?case by simp
next
  case (Cons r rs)
  then obtain x xs' where r: "r = Inr x" and c: "collect rs = Inr xs'" and xs: "xs = x # xs'"
    by (auto split: sum.splits)
  from Cons.IH [OF c] r xs show ?case
    by (auto simp: nth_Cons split: nat.splits)
qed

lemma collect_all_Inr: "collect (map Inr xs) = Inr xs"
  by (induction xs) simp_all









section \<open>Splitting, joining and trimming\<close>

lemma trim_id: "s \<noteq> [] \<Longrightarrow> \<not> is_js_space (hd s) \<Longrightarrow> \<not> is_js_space (last s) \<Longrightarrow> trim s = s"
proof -
  assume s: "s \<noteq> []" and h: "\<not> is_js_space (hd s)" and l: "\<not> is_js_space (last s)"
  from s h have a: "dropWhile is_js_space s = s"
    by (simp add: dropWhile_eq_self_iff)
  from s l have "dropWhile is_js_space (rev s) = rev s"
    by (simp add: dropWhile_eq_self_iff hd_rev)
  with a show ?thesis
    by (simp add: trim_def)
qed

lemma splitFrom_char_none:
  "x \<notin> set s \<Longrightarrow> splitFrom [x] cur s = [cur @ s]"
  by (induction s arbitrary: cur) (auto simp: startsWith_single)

lemma splitFrom_char_first:
  "x \<notin> set a \<Longrightarrow> splitFrom [x] cur (a @ x # rest) = (cur @ a) # splitFrom [x] [] rest"
  by (induction a arbitrary: cur) (auto simp: startsWith_single)

lemma js_split_two_lines:
  "newline \<notin> set a \<Longrightarrow> newline \<notin> set b \<Longrightarrow> js_split (a @ newline # b) [newline] = [a, b]"
  by (simp add: js_split_def splitFrom_char_first splitFrom_char_none)

lemma set_join: "set (join d xs) \<subseteq> set d \<union> \<Union> (set ` set xs)"
  by (induction d xs rule: join.induct) auto

lemma join_Cons: "xs \<noteq> [] \<Longrightarrow> join d (x # xs) = x @ d @ join d xs"
  by (cases xs) simp_all

lemma js_split_join:
  "keys \<noteq> [] \<Longrightarrow> \<forall>k \<in> set keys. c \<notin> set k \<Longrightarrow> splitFrom [c] [] (join [c] keys) = keys"
proof (induction keys)
  case Nil
  then show ?case by simp
next
  case (Cons k keys)
  show ?case
  proof (cases keys)
    case Nil
    with Cons.prems show ?thesis
      by (simp add: splitFrom_char_none)
  next
    case (Cons k' keys')
    with Cons.IH Cons.prems have "splitFrom [c] [] (join [c] keys) = keys"
      by simp
    moreover have "join [c] (k # keys) = k @ c # join [c] keys"
      using Cons by simp
    moreover have "c \<notin> set k"
      using Cons.prems by simp
    ultimately show ?thesis
      by (simp add: splitFrom_char_first del: join.simps)
  qed
qed

lemma removeFirst_prefix: "p \<noteq> [] \<Longrightarrow> removeFirst p (p @ s) = s"
  by (cases p) (simp_all add: startsWith_def)

lemma splitFrom_absent:
  "sep \<noteq> [] \<Longrightarrow> \<not> js_includes s sep \<Longrightarrow> splitFrom sep cur s = [cur @ s]"
  by (induction s arbitrary: cur) auto

lemma js_split_absent:
  "sep \<noteq> [] \<Longrightarrow> \<not> js_includes k sep \<Longrightarrow> js_split k sep = [k]"
  by (simp add: js_split_def splitFrom_absent)

section \<open>Objects built in enumeration order\<close>

lemma insert_prop_last:
  "\<forall>k' \<in> fst ` set obj. \<not> comes_before k k' \<Longrightarrow> insert_prop k v obj = obj @ [(k, v)]"
  by (induction obj) auto

lemma obj_set_append:
  "k \<noteq> ''__proto__'' \<Longrightarrow> distinct (map fst obj @ [k]) \<Longrightarrow>
   sorted_wrt (\<lambda>a b. \<not> comes_before b a) (map fst obj @ [k]) \<Longrightarrow>
   obj_set obj k v = obj @ [(k, v)]"
  by (simp add: obj_set_def has_key_def sorted_wrt_append insert_prop_last)

section \<open>Object mode: encoding, then decoding\<close>

text \<open>The field text of an array is the texts of its elements joined with commas, and
  the field text of \<open>null\<close> or \<open>undefined\<close> is empty.\<close>

lemma fieldText_array:
  "fieldText numToString (JArr xs)
     = (case collect (map (\<lambda>x. stringOrEmpty numToString (Some x)) xs) of
          Inl e \<Rightarrow> Inl e
        | Inr texts \<Rightarrow> Inr (join '','' texts))"
proof -
  have "(\<lambda>x. case x of JNull \<Rightarrow> Inr [] | JUndefined \<Rightarrow> Inr [] | _ \<Rightarrow> toStr numToString x)
      = (\<lambda>x. stringOrEmpty numToString (Some x))"
    by (rule ext) (simp add: stringOrEmpty_def split: json.splits)
  then show ?thesis
    by (simp add: fieldText_def stringOrEmpty_def)
qed

lemma fieldText_null:
  "fieldText numToString JNull = Inr [] \<and> fieldText numToString JUndefined = Inr []"
  by (simp add: fieldText_def stringOrEmpty_def)

lemma flattenedValue_text:
  "flat_value v \<Longrightarrow> fieldText numToString v = Inr t \<Longrightarrow>
   stringOrEmpty numToString (Some (flattenedValue v t)) = Inr t"
  by (cases v) (simp_all add: flattenedValue_def fieldText_def stringOrEmpty_def)

lemma collect_Cons_Inr:
  "collect (r # rs) = Inr ts \<longleftrightarrow> (\<exists>t ts'. r = Inr t \<and> collect rs = Inr ts' \<and> ts = t # ts')"
  by (auto split: sum.splits)

lemma flattenEntries_flat:
  "list_all flat_value (map snd rest) \<Longrightarrow>
   ''__proto__'' \<notin> set (map fst rest) \<Longrightarrow>
   collect (map (fieldText numToString) (map snd rest)) = Inr ts \<Longrightarrow>
   distinct (map fst acc @ map fst rest) \<Longrightarrow>
   sorted_wrt (\<lambda>a b. \<not> comes_before b a) (map fst acc @ map fst rest) \<Longrightarrow>
   flattenEntries numToString sep [] rest acc
     = Inr (acc @ map (\<lambda>((k, v), t). (k, flattenedValue v t)) (zip rest ts))"
proof (induction rest arbitrary: acc ts)
  case Nil
  then show ?case by simp
next
  case (Cons kv rest)
  obtain k v where kv: "kv = (k, v)"
    by (cases kv)
  from Cons.prems(3) kv obtain t ts' where t: "fieldText numToString v = Inr t"
    and c: "collect (map (fieldText numToString) (map snd rest)) = Inr ts'" and ts: "ts = t # ts'"
    by (auto split: sum.splits)
  have p: "k \<noteq> ''__proto__''"
    using Cons.prems(2) kv by auto
  have d: "distinct (map fst acc @ [k])"
    using Cons.prems(4) kv by auto
  have s: "sorted_wrt (\<lambda>a b. \<not> comes_before b a) (map fst acc @ [k])"
    using Cons.prems(5) kv by (auto simp: sorted_wrt_append)
  have step: "(case v of
                 JObj sub \<Rightarrow>
                   (case flattenEntries numToString sep k sub [] of
                      Inl e \<Rightarrow> Inl e
                    | Inr flat \<Rightarrow> Inr (assignAll acc flat))
               | JArr xs \<Rightarrow>
                   (case toStr numToString (JArr xs) of
                      Inl e \<Rightarrow> Inl e
                    | Inr joined \<Rightarrow> Inr (obj_set acc k (JStr joined)))
               | _ \<Rightarrow> Inr (obj_set acc k v)) = Inr (acc @ [(k, flattenedValue v t)])"
    using Cons.prems(1) kv t obj_set_append [OF p d s]
    by (cases v)
      (simp_all add: flat_value_def flattenedValue_def fieldText_def stringOrEmpty_def
        del: toStr.simps)
  have "flattenEntries numToString sep [] rest (acc @ [(k, flattenedValue v t)])
     = Inr ((acc @ [(k, flattenedValue v t)])
            @ map (\<lambda>((k, v), t). (k, flattenedValue v t)) (zip rest ts'))"
    using Cons.prems kv c by (intro Cons.IH) simp_all
  with step kv ts show ?case
    by (simp del: toStr.simps)
qed

lemma flattened_texts:
  "list_all flat_value (map snd obj) \<Longrightarrow>
   collect (map (fieldText numToString) (map snd obj)) = Inr ts \<Longrightarrow>
   collect (map (\<lambda>w. stringOrEmpty numToString (Some w))
              (map snd (map (\<lambda>((k, v), t). (k, flattenedValue v t)) (zip obj ts)))) = Inr ts
   \<and> map fst (map (\<lambda>((k, v), t). (k, flattenedValue v t)) (zip obj ts)) = map fst obj"
proof (induction obj arbitrary: ts)
  case Nil
  then show ?case by simp
next
  case (Cons kv obj)
  obtain k v where kv: "kv = (k, v)"
    by (cases kv)
  from Cons.prems(2) kv obtain t ts' where t: "fieldText numToString v = Inr t"
    and c: "collect (map (fieldText numToString) (map snd obj)) = Inr ts'" and ts: "ts = t # ts'"
    by (auto split: sum.splits)
  from Cons.prems(1) kv have f: "flat_value v" and fs: "list_all flat_value (map snd obj)"
    by simp_all
  from Cons.IH [OF fs c] flattenedValue_text [OF f t] kv ts show ?case
    by simp
qed

lemma convertObjectToToon_flat:
  assumes "list_all flat_value (map snd obj)" and "wf_object obj"
    and "''__proto__'' \<notin> set (map fst obj)"
    and "collect (map (fieldText numToString) (map snd obj)) = Inr ts"
  shows "convertObjectToToon numToString obj delimiter sep includeSchema =
     Inr ((if includeSchema then schemaHeader delimiter (map fst obj) else []) @
          join delimiter (map (\<lambda>t. escapeValue t delimiter) ts))"
proof -
  let ?pairs = "map (\<lambda>((k, v), t). (k, flattenedValue v t)) (zip obj ts)"
  have "flattenObject numToString obj [] sep = Inr ?pairs"
    using assms flattenEntries_flat [of obj numToString ts "[]" sep]
    by (simp add: flattenObject_def wf_object_def)
  with flattened_texts [OF assms(1,4)] show ?thesis
    by (simp add: convertObjectToToon_def)
qed

lemma tokenize_escaped_field:
  assumes "c \<noteq> dquote" and "tokenizable c t" and "rest = [] \<or> hd rest = c"
  shows "tokenize [c] vs [] False (escapeValue t [c] @ rest) = tokenize [c] vs t False rest"
proof (cases "c \<in> set t \<or> newline \<in> set t")
  case True
  then have "escapeValue t [c] @ rest = dquote # doubleQuotes t @ dquote # rest"
    by (simp add: escapeValue_def js_includes_single)
  moreover have "tokenize [c] vs [] True (doubleQuotes t @ dquote # rest)
      = tokenize [c] vs ([] @ t) False rest"
    using assms(1,3) by (intro tokenize_quoted) auto
  ultimately show ?thesis
    by (simp add: tokenize_open del: tokenize.simps)
next
  case False
  with assms(2) have q: "dquote \<notin> set t"
    by (simp add: tokenizable_def)
  from False have "escapeValue t [c] = t"
    by (simp add: escapeValue_def js_includes_single)
  moreover have "tokenize [c] vs [] False (t @ rest) = tokenize [c] vs ([] @ t) False rest"
    using q False by (intro tokenize_plain) auto
  ultimately show ?thesis
    by simp
qed

lemma tokenize_joined_fields:
  assumes "c \<noteq> dquote" and "ts \<noteq> []" and "list_all (tokenizable c) ts"
  shows "tokenize [c] vs [] False (join [c] (map (\<lambda>t. escapeValue t [c]) ts)) = vs @ ts"
  using assms(2,3)
proof (induction ts arbitrary: vs)
  case Nil
  then show ?case by simp
next
  case (Cons t ts)
  show ?case
  proof (cases ts)
    case Nil
    have "tokenize [c] vs [] False (escapeValue t [c] @ []) = tokenize [c] vs t False []"
      using assms(1) Cons.prems by (intro tokenize_escaped_field) simp_all
    with Nil show ?thesis
      by simp
  next
    case (Cons t' ts')
    have j: "join [c] (map (\<lambda>t. escapeValue t [c]) (t # ts))
          = escapeValue t [c] @ c # join [c] (map (\<lambda>t. escapeValue t [c]) ts)"
      using Cons by simp
    have "tokenize [c] vs [] False
            (escapeValue t [c] @ c # join [c] (map (\<lambda>t. escapeValue t [c]) ts))
          = tokenize [c] vs t False (c # join [c] (map (\<lambda>t. escapeValue t [c]) ts))"
      using assms(1) Cons.prems by (intro tokenize_escaped_field) simp_all
    also have "\<dots> = tokenize [c] (vs @ [t]) [] False (join [c] (map (\<lambda>t. escapeValue t [c]) ts))"
      using assms(1) by (simp add: tokenize_other del: tokenize.simps)
    also have "\<dots> = (vs @ [t]) @ ts"
      using Cons Cons.prems by (intro Cons.IH) simp_all
    finally show ?thesis
      using j by simp
  qed
qed

lemma parseDelimitedLine_joined_fields:
  "c \<noteq> dquote \<Longrightarrow> ts \<noteq> [] \<Longrightarrow> list_all (tokenizable c) ts \<Longrightarrow>
   parseDelimitedLine (join [c] (map (\<lambda>t. escapeValue t [c]) ts)) [c] = ts"
  using tokenize_joined_fields [of c ts "[]"] by (simp add: parseDelimitedLine_def)

lemma trim_not_blank: "s \<noteq> [] \<Longrightarrow> \<not> is_js_space (last s) \<Longrightarrow> trim s \<noteq> []"
proof -
  assume s: "s \<noteq> []" and l: "\<not> is_js_space (last s)"
  let ?d = "dropWhile is_js_space s"
  from s l have "\<exists>x \<in> set s. \<not> is_js_space x"
    using last_in_set by blast
  then have a: "?d \<noteq> []"
    by (simp add: dropWhile_eq_Nil_conv)
  have "s = takeWhile is_js_space s @ ?d"
    by simp
  with a have "last s = last ?d"
    by (metis last_appendR)
  moreover from a have "last ?d \<in> set ?d"
    by simp
  ultimately have "\<exists>x \<in> set (rev ?d). \<not> is_js_space x"
    using l by auto
  then have "dropWhile is_js_space (rev ?d) \<noteq> []"
    by (simp add: dropWhile_eq_Nil_conv)
  then show ?thesis
    by (simp add: trim_def)
qed

lemma coerceValue_scalar: "coerceValue toNumber pn pb t \<noteq> DObj sub"
  by (simp add: coerceValue_def)

lemma assignPath_single_scalar:
  "\<forall>sub. v \<noteq> DObj sub \<Longrightarrow> assignPath [key] v current = Inr (obj_set current key v)"
  by (cases v) simp_all

lemma parseFields_flat:
  assumes "sep \<noteq> []"
  shows "list_all (\<lambda>k. k \<noteq> ''__proto__'' \<and> \<not> js_includes k sep) ks \<Longrightarrow>
     length ks = length ts \<Longrightarrow>
     distinct (map fst acc @ ks) \<Longrightarrow>
     sorted_wrt (\<lambda>a b. \<not> comes_before b a) (map fst acc @ ks) \<Longrightarrow>
     parseFields toNumber pn pb sep (pre @ ts) (length pre) ks acc
       = Inr (acc @ map (\<lambda>(k, t). (k, coerceValue toNumber pn pb t)) (zip ks ts))"
proof (induction ks arbitrary: ts pre acc)
  case Nil
  then show ?case by simp
next
  case (Cons k ks)
  then obtain t ts' where ts: "ts = t # ts'"
    by (cases ts) auto
  let ?v = "coerceValue toNumber pn pb t"
  have p: "k \<noteq> ''__proto__''"
    using Cons.prems(1) by simp
  have d: "distinct (map fst acc @ [k])"
    using Cons.prems(3) by auto
  have s: "sorted_wrt (\<lambda>a b. \<not> comes_before b a) (map fst acc @ [k])"
    using Cons.prems(4) by (auto simp: sorted_wrt_append)
  have "js_split k sep = [k]"
    using assms Cons.prems(1) by (simp add: js_split_absent)
  then have set: "setNestedValue acc k ?v sep = Inr (acc @ [(k, ?v)])"
    using obj_set_append [OF p d s] assignPath_single_scalar [of ?v k acc]
    by (simp add: setNestedValue_def coerceValue_scalar del: assignPath.simps)
  have "parseFields toNumber pn pb sep ((pre @ [t]) @ ts') (length (pre @ [t])) ks (acc @ [(k, ?v)])
       = Inr ((acc @ [(k, ?v)]) @ map (\<lambda>(k, t). (k, coerceValue toNumber pn pb t)) (zip ks ts'))"
    using Cons.prems ts by (intro Cons.IH) simp_all
  with set ts show ?case
    by simp
qed

text \<open>
  C1 (amended). Take a one-character delimiter that is neither the quote character
  nor a newline, a non-empty nested separator, the schema line included, and a flat
  object: its values primitives or arrays, its keys unique (and in enumeration order).
  Suppose no key is \<open>__proto__\<close> or contains the delimiter, a newline or the nested
  separator; the field texts (\<open>String(v ?? '')\<close>, an array joined with commas) exist,
  and none contains a newline, or a quote character without the delimiter; and the
  data line is not empty and does not end in white space. Then the encoding is the
  schema line and the data line, and decoding it in object mode gives the object with
  the same keys in the same order, each value being the type conversion of its field
  text.
\<close>

theorem object_round_trip:
  assumes "c \<noteq> dquote" and "c \<noteq> newline" and "nestedSeparator \<noteq> []"
    and "wf_object obj"
    and "list_all flat_value (map snd obj)"
    and "list_all (\<lambda>k. k \<noteq> ''__proto__'' \<and> c \<notin> set k \<and> newline \<notin> set k
                      \<and> \<not> js_includes k nestedSeparator)
           (map fst obj)"
    and "collect (map (fieldText numToString) (map snd obj)) = Inr texts"
    and "list_all (\<lambda>t. newline \<notin> set t \<and> (dquote \<in> set t \<longrightarrow> c \<in> set t)) texts"
    and "join [c] (map (\<lambda>t. escapeValue t [c]) texts) \<noteq> []"
    and "\<not> is_js_space (last (join [c] (map (\<lambda>t. escapeValue t [c]) texts)))"
  shows "convertObjectToToon numToString obj [c] nestedSeparator True
           = Inr (schemaHeader [c] (map fst obj) @ join [c] (map (\<lambda>t. escapeValue t [c]) texts))
         \<and> parseToon toNumber
             (schemaHeader [c] (map fst obj) @ join [c] (map (\<lambda>t. escapeValue t [c]) texts))
             [c] nestedSeparator ''object'' parseNumbers parseBooleans
           = Inr (Single (map (\<lambda>(k, t). (k, coerceValue toNumber parseNumbers parseBooleans t))
                   (zip (map fst obj) texts)))"
proof -
  let ?keys = "map fst obj"
  let ?line = "join [c] (map (\<lambda>t. escapeValue t [c]) texts)"
  let ?schema = "''@schema'' @ [c] @ join [c] ?keys"
  let ?decoded = "map (\<lambda>(k, t). (k, coerceValue toNumber parseNumbers parseBooleans t))
      (zip ?keys texts)"
  have len: "length texts = length obj"
    using collect_Inr [OF assms(7)] by simp
  have noproto: "''__proto__'' \<notin> set ?keys"
    using assms(6) by (auto simp: list_all_iff)
  have enc: "convertObjectToToon numToString obj [c] nestedSeparator True
      = Inr (schemaHeader [c] ?keys @ ?line)"
    using assms(4,5,7) noproto by (simp add: convertObjectToToon_flat)
  have header: "schemaHeader [c] ?keys @ ?line = ?schema @ newline # ?line"
    by (simp add: schemaHeader_def)
  have nonempty: "?line \<noteq> []" and last: "\<not> is_js_space (last ?line)"
    using assms(9,10) by simp_all
  then have "texts \<noteq> []"
    by auto
  with len have obj: "obj \<noteq> []"
    by auto
  have trimmed: "trim (?schema @ newline # ?line) = ?schema @ newline # ?line"
    using nonempty last by (intro trim_id) (simp_all add: is_js_space_def)
  have nl1: "newline \<notin> set ?schema"
  proof -
    have "set (join [c] ?keys) \<subseteq> set [c] \<union> \<Union> (set ` set ?keys)"
      by (rule set_join)
    moreover have "\<forall>k \<in> set ?keys. newline \<notin> set k"
      using assms(6) by (auto simp: list_all_iff)
    ultimately have "newline \<notin> set (join [c] ?keys)"
      using assms(2) by auto
    with assms(2) show ?thesis
      by auto
  qed
  have nl2: "newline \<notin> set ?line"
  proof -
    have "set ?line \<subseteq> set [c] \<union> \<Union> (set ` set (map (\<lambda>t. escapeValue t [c]) texts))"
      by (rule set_join)
    moreover have "\<forall>t \<in> set texts. newline \<notin> set (escapeValue t [c])"
      using assms(8) by (auto simp: list_all_iff escapeValue_def doubleQuotes_def)
    ultimately show ?thesis
      using assms(2) by auto
  qed
  have lines: "js_split (trim (?schema @ newline # ?line)) [newline] = [?schema, ?line]"
    unfolding trimmed by (rule js_split_two_lines [OF nl1 nl2])
  have keys: "js_split (removeFirst (''@schema'' @ [c]) ?schema) [c] = ?keys"
  proof -
    have "removeFirst (''@schema'' @ [c]) ((''@schema'' @ [c]) @ join [c] ?keys) = join [c] ?keys"
      by (rule removeFirst_prefix) simp
    moreover have "splitFrom [c] [] (join [c] ?keys) = ?keys"
      using obj assms(6) by (intro js_split_join) (auto simp: list_all_iff)
    ultimately show ?thesis
      by (simp add: js_split_def)
  qed
  have schema: "detectSchema ?schema [?line] [c] = (?keys, [?line])"
    using keys by (simp add: detectSchema_def startsWith_def)
  have tokens: "parseDelimitedLine ?line [c] = texts"
    using assms(1,8) \<open>texts \<noteq> []\<close>
    by (intro parseDelimitedLine_joined_fields) (auto simp: list_all_iff tokenizable_def)
  have fields: "parseFields toNumber parseNumbers parseBooleans nestedSeparator ([] @ texts)
      (length ([] :: string list)) ?keys [] = Inr ([] @ ?decoded)"
    using assms(3,4,6) len
    by (intro parseFields_flat) (auto simp: list_all_iff wf_object_def)
  have rows: "parseRows toNumber parseNumbers parseBooleans [c] nestedSeparator ?keys [?line] []
      = Inr [?decoded]"
    using trim_not_blank [OF nonempty last] fields tokens by simp
  have "parseToon toNumber (?schema @ newline # ?line) [c] nestedSeparator ''object''
      parseNumbers parseBooleans = Inr (Single ?decoded)"
    unfolding parseToon_def lines
    by (simp only: schema rows list.case prod.case sum.case shapeOutput_def)
      (simp add: shapeOutput_def)
  with enc header show ?thesis
    by simp
qed

theorem object_round_trip_witness:
  "CHR ''|'' \<noteq> dquote \<and> CHR ''|'' \<noteq> newline \<and> ''.'' \<noteq> []
   \<and> wf_object example_object
   \<and> list_all flat_value (map snd example_object)
   \<and> list_all (\<lambda>k. k \<noteq> ''__proto__'' \<and> CHR ''|'' \<notin> set k \<and> newline \<notin> set k
                   \<and> \<not> js_includes k ''.'')
        (map fst example_object)
   \<and> collect (map (fieldText example_numToString) (map snd example_object))
       = Inr [''J|\"o\"'', ''30'', ''x,y'', ''true'']
   \<and> list_all (\<lambda>t. newline \<notin> set t \<and> (dquote \<in> set t \<longrightarrow> CHR ''|'' \<in> set t))
        [''J|\"o\"'', ''30'', ''x,y'', ''true'']
   \<and> join ''|'' (map (\<lambda>t. escapeValue t ''|'') [''J|\"o\"'', ''30'', ''x,y'', ''true'']) \<noteq> []
   \<and> \<not> is_js_space (last (join ''|'' (map (\<lambda>t. escapeValue t ''|'')
                                 [''J|\"o\"'', ''30'', ''x,y'', ''true''])))
   \<and> convertObjectToToon example_numToString example_object ''|'' ''.'' True
       = Inr (''@schema|name|age|tags|ok'' @ [newline] @ ''\"J|\"\"o\"\"\"|30|x,y|true'')
   \<and> parseToon example_toNumber
        (''@schema|name|age|tags|ok'' @ [newline] @ ''\"J|\"\"o\"\"\"|30|x,y|true'')
        ''|'' ''.'' ''object'' True True
      = Inr (Single [(''name'', DStr ''J|\"o\"''), (''age'', DNum 30), (''tags'', DStr ''x,y''),
                     (''ok'', DBool True)])"
proof -
  have h1: "CHR ''|'' \<noteq> dquote" and h2: "CHR ''|'' \<noteq> newline" and h3: "''.'' \<noteq> []"
    by simp_all
  have h4: "wf_object example_object"
    by code_simp
  have h5: "list_all flat_value (map snd example_object)"
    by code_simp
  have h6: "list_all (\<lambda>k. k \<noteq> ''__proto__'' \<and> CHR ''|'' \<notin> set k \<and> newline \<notin> set k
                   \<and> \<not> js_includes k ''.'')
        (map fst example_object)"
    by code_simp
  have h7: "collect (map (fieldText example_numToString) (map snd example_object))
       = Inr [''J|\"o\"'', ''30'', ''x,y'', ''true'']"
    by code_simp
  have h8: "list_all (\<lambda>t. newline \<notin> set t \<and> (dquote \<in> set t \<longrightarrow> CHR ''|'' \<in> set t))
        [''J|\"o\"'', ''30'', ''x,y'', ''true'']"
    by code_simp
  have h9: "join ''|'' (map (\<lambda>t. escapeValue t ''|'') [''J|\"o\"'', ''30'', ''x,y'', ''true'']) \<noteq> []"
    by code_simp
  have h10: "\<not> is_js_space (last (join ''|'' (map (\<lambda>t. escapeValue t ''|'')
                                 [''J|\"o\"'', ''30'', ''x,y'', ''true''])))"
    by code_simp
  have t: "schemaHeader ''|'' (map fst example_object)
             @ join ''|'' (map (\<lambda>t. escapeValue t ''|'') [''J|\"o\"'', ''30'', ''x,y'', ''true''])
      = ''@schema|name|age|tags|ok'' @ [newline] @ ''\"J|\"\"o\"\"\"|30|x,y|true''"
    by code_simp
  have r: "map (\<lambda>(k, t). (k, coerceValue example_toNumber True True t))
             (zip (map fst example_object) [''J|\"o\"'', ''30'', ''x,y'', ''true''])
      = [(''name'', DStr ''J|\"o\"''), (''age'', DNum 30), (''tags'', DStr ''x,y''),
         (''ok'', DBool True)]"
    by code_simp
  from object_round_trip [OF h1 h2 h3 h4 h5 h6 h7 h8 h9 h10, of example_toNumber True True]
  have "convertObjectToToon example_numToString example_object ''|'' ''.'' True
       = Inr (''@schema|name|age|tags|ok'' @ [newline] @ ''\"J|\"\"o\"\"\"|30|x,y|true'')
   \<and> parseToon example_toNumber
        (''@schema|name|age|tags|ok'' @ [newline] @ ''\"J|\"\"o\"\"\"|30|x,y|true'')
        ''|'' ''.'' ''object'' True True
      = Inr (Single [(''name'', DStr ''J|\"o\"''), (''age'', DNum 30), (''tags'', DStr ''x,y''),
                     (''ok'', DBool True)])"
    unfolding t r .
  with h4 h5 h6 h7 h8 h9 h10 show ?thesis
    by simp
qed

text \<open>A flat object whose only key contains the nested separator is decoded as a nested
  object.\<close>

theorem object_round_trip_counterexample:
  "convertObjectToToon example_numToString [(''a.b'', JStr ''x'')] ''|'' ''.'' True
     = Inr (''@schema|a.b'' @ [newline] @ ''x'')
   \<and> parseToon example_toNumber (''@schema|a.b'' @ [newline] @ ''x'')
        ''|'' ''.'' ''object'' True True
     = Inr (Single [(''a'', DObj [(''b'', DStr ''x'')])])
   \<and> parseToon example_toNumber (''@schema|a.b'' @ [newline] @ ''x'')
        ''|'' ''.'' ''object'' True True
     \<noteq> Inr (Single [(''a.b'', coerceValue example_toNumber True True ''x'')])"
  by code_simp

text \<open>The hypotheses are needed. Without the schema line the key is lost; a data line
  that is empty is dropped with the record; a quote character in a field that is not
  quoted is dropped; and the key \<open>__proto__\<close> is not stored by \<open>flattenObject\<close>, so that
  the encoding has neither the key nor its value.\<close>

lemma object_round_trip_without_schema:
  "convertObjectToToon example_numToString [(''a'', JStr ''x'')] ''|'' ''.'' False = Inr ''x''
   \<and> parseToon example_toNumber ''x'' ''|'' ''.'' ''object'' True True
     = Inr (Single [(''field0'', DStr ''x'')])"
  by code_simp

lemma object_round_trip_empty_line:
  "convertObjectToToon example_numToString [(''a'', JStr [])] ''|'' ''.'' True
     = Inr (''@schema|a'' @ [newline])
   \<and> parseToon example_toNumber (''@schema|a'' @ [newline]) ''|'' ''.'' ''object'' True True
     = Inr (Single [])"
  by code_simp

lemma object_round_trip_bare_quote:
  "convertObjectToToon example_numToString [(''a'', JStr ''say \"hi\"'')] ''|'' ''.'' True
     = Inr (''@schema|a'' @ [newline] @ ''say \"hi\"'')
   \<and> parseToon example_toNumber (''@schema|a'' @ [newline] @ ''say \"hi\"'')
        ''|'' ''.'' ''object'' True True
     = Inr (Single [(''a'', DStr ''say hi'')])"
  by code_simp

lemma object_round_trip_proto_key:
  "convertObjectToToon example_numToString [(''__proto__'', JStr ''x''), (''a'', JStr ''y'')]
       ''|'' ''.'' True
     = Inr (''@schema|a'' @ [newline] @ ''y'')
   \<and> parseToon example_toNumber (''@schema|a'' @ [newline] @ ''y'')
        ''|'' ''.'' ''object'' True True
     = Inr (Single [(''a'', DStr ''y'')])"
  by code_simp

section \<open>A value with a newline\<close>

text \<open>
  C2. A value that contains a newline is quoted by the encoder, quote characters doubled,
  and the tokenizer alone reads the quoted field back. The decoder however splits the
  text into lines before it tokenizes: the object \<open>{a: "x\ny"}\<close> is encoded as the
  schema line and the field \<open>"x\ny"\<close>, and decoded as the two rows \<open>{a: "x"}\<close> and
  \<open>{a: "y"}\<close>, with the parse flags off.
\<close>

theorem newline_value_is_split:
  "escapeValue [CHR ''x'', newline, CHR ''y''] ''|'' = [dquote, CHR ''x'', newline, CHR ''y'', dquote]
   \<and> parseDelimitedLine (escapeValue [CHR ''x'', newline, CHR ''y''] ''|'') ''|''
       = [[CHR ''x'', newline, CHR ''y'']]
   \<and> convertObjectToToon example_numToString [(''a'', JStr [CHR ''x'', newline, CHR ''y''])] ''|'' ''.'' True
       = Inr (''@schema|a'' @ [newline, dquote, CHR ''x'', newline, CHR ''y'', dquote])
   \<and> parseToon example_toNumber
        (''@schema|a'' @ [newline, dquote, CHR ''x'', newline, CHR ''y'', dquote])
        ''|'' ''.'' ''object'' False False
       = Inr (Single [(''a'', DStr ''x'')])
   \<and> parseToon example_toNumber
        (''@schema|a'' @ [newline, dquote, CHR ''x'', newline, CHR ''y'', dquote])
        ''|'' ''.'' ''array'' False False
       = Inr (Many [[(''a'', DStr ''x'')], [(''a'', DStr ''y'')]])"
  by code_simp

end
